theory Spec2Isabelle
  imports Main "HOL-Library.Multiset"
begin

section \<open>The users module: data\<close>

text \<open>
  The users module is a service class (\<^verbatim>\<open>service.py\<close>) over a repository class
  (\<^verbatim>\<open>respository.py\<close>) over one table. The table is a list of rows in insertion order;
  every operation takes the table and returns its result together with the table it leaves.
  An exception is a value of \<open>error\<close> on the left of a sum, carrying the message the
  source formats. A Python \<^verbatim>\<open>str\<close> is a \<open>string\<close>, the bytes of its UTF-8 form: the
  source compares strings for equality and emptiness and concatenates them. The first
  four errors are the service's own classes; \<open>MultipleResultsFound\<close> is the mapper's, and
  \<open>StoreFailure\<close> is a failure of the store or its driver, which the source lets through.
\<close>

datatype error =
    UserServiceError string
  | UserNotFoundError string
  | UserAlreadyExistsError string
  | InvalidPasswordError string
  | MultipleResultsFound
  | StoreFailure

text \<open>
  \<^verbatim>\<open>UserCreate\<close> and \<^verbatim>\<open>UserUpdate\<close> of \<^verbatim>\<open>schemas.py\<close>. The members of
  \<^verbatim>\<open>UserRole\<close> are declared outside the sources, so the role is a type parameter. A
  field of \<^verbatim>\<open>UserUpdate\<close> that was not sent and one sent as \<^verbatim>\<open>None\<close> are the same
  value to the service, \<open>None\<close>.
\<close>

record 'r UserCreate =
  email :: string
  first_name :: string
  last_name :: string
  phone :: "string option"
  role :: 'r
  password :: string

record 'r UserUpdate =
  email :: "string option"
  first_name :: "string option"
  last_name :: "string option"
  phone :: "string option"
  role :: "'r option"
  is_active :: "bool option"

text \<open>
  \<^verbatim>\<open>UserUpdate()\<close>: every field of the patch has the default \<^verbatim>\<open>None\<close>.
\<close>

definition UserUpdate_default :: "'r UserUpdate" where
  "UserUpdate_default =
     \<lparr> UserUpdate.email = None, UserUpdate.first_name = None, UserUpdate.last_name = None,
       UserUpdate.phone = None, UserUpdate.role = None, UserUpdate.is_active = None \<rparr>"

text \<open>
  Modelled from the spec: the entity class \<^verbatim>\<open>User\<close> of \<^verbatim>\<open>app/modules/users/models.py\<close>
  is not among the sources. Its attributes are the ones the service and the repository
  read and write and the ones \<^verbatim>\<open>UserResponse\<close> reads from it: the identifier, the
  password hash, the profile fields, the three flags and the two timestamps of the spec's
  data model. The identifier column is called \<^verbatim>\<open>id\<close> in the source.
\<close>

record 'r User =
  id' :: string
  email :: string
  first_name :: string
  last_name :: string
  phone :: "string option"
  role :: 'r
  password_hash :: string
  is_active :: bool
  is_verified :: bool
  is_two_factor_enabled :: bool
  created_at :: int
  updated_at :: int

text \<open>
  Modelled from the spec: what the constructor of \<^verbatim>\<open>User\<close> and the insert leave in the
  columns that \<^verbatim>\<open>UserService.create\<close> does not pass (the server-assigned identifier,
  the default flags, the timestamps) is declared in \<^verbatim>\<open>models.py\<close>; the values are a
  parameter of \<open>create\<close>.
\<close>

record ColumnDefaults =
  default_id :: string
  default_is_active :: bool
  default_is_verified :: bool
  default_is_two_factor_enabled :: bool
  default_now :: int

definition User_init ::
  "ColumnDefaults \<Rightarrow> string \<Rightarrow> string \<Rightarrow> string \<Rightarrow> string option \<Rightarrow> 'r \<Rightarrow> string \<Rightarrow> 'r User" where
  "User_init dflt email' first_name' last_name' phone' role' password_hash' =
     \<lparr> id' = default_id dflt,
       email = email',
       first_name = first_name',
       last_name = last_name',
       phone = phone',
       role = role',
       password_hash = password_hash',
       is_active = default_is_active dflt,
       is_verified = default_is_verified dflt,
       is_two_factor_enabled = default_is_two_factor_enabled dflt,
       created_at = default_now dflt,
       updated_at = default_now dflt \<rparr>"

subsection \<open>Strings\<close>

text \<open>
  \<^verbatim>\<open>str.lower()\<close> is Python's own, with the case mapping of all of Unicode. Every
  operation that calls it takes the function as its parameter \<open>lower\<close>, and the theorems
  hold for every such function; what a theorem needs of it is among its hypotheses.
\<close>

section \<open>The repository\<close>

text \<open>
  \<^verbatim>\<open>Result.scalar_one_or_none()\<close>: no row is \<^verbatim>\<open>None\<close>, one row is that row, more
  rows raise \<^verbatim>\<open>MultipleResultsFound\<close>.
\<close>

fun scalar_one_or_none :: "'a list \<Rightarrow> error + 'a option" where
  "scalar_one_or_none [] = Inr None"
| "scalar_one_or_none [x] = Inr (Some x)"
| "scalar_one_or_none (x # y # zs) = Inl MultipleResultsFound"

definition UserRepository_get_by_id :: "'r User list \<Rightarrow> string \<Rightarrow> error + 'r User option" where
  "UserRepository_get_by_id s user_id =
     scalar_one_or_none (filter (\<lambda>u. id' u = user_id) s)"

definition UserRepository_get_by_email ::
  "(string \<Rightarrow> string) \<Rightarrow> 'r User list \<Rightarrow> string \<Rightarrow> error + 'r User option" where
  "UserRepository_get_by_email lower s email' =
     scalar_one_or_none (filter (\<lambda>u. User.email u = lower email') s)"

definition UserRepository_get_by_phone :: "'r User list \<Rightarrow> string \<Rightarrow> error + 'r User option" where
  "UserRepository_get_by_phone s phone' =
     scalar_one_or_none (filter (\<lambda>u. User.phone u = Some phone') s)"

definition UserRepository_exists_by_email ::
  "(string \<Rightarrow> string) \<Rightarrow> 'r User list \<Rightarrow> string \<Rightarrow> bool" where
  "UserRepository_exists_by_email lower s email' =
     (0 < length (filter (\<lambda>u. User.email u = lower email') s))"

definition UserRepository_exists_by_phone :: "'r User list \<Rightarrow> string \<Rightarrow> bool" where
  "UserRepository_exists_by_phone s phone' =
     (0 < length (filter (\<lambda>u. User.phone u = Some phone') s))"

text \<open>
  \<^verbatim>\<open>UserRepository.list\<close>. The count runs over the filtered rows; the page is cut from
  the filtered rows in descending \<^verbatim>\<open>created_at\<close> order (\<^verbatim>\<open>ORDER BY\<close> applies before
  \<^verbatim>\<open>OFFSET\<close> and \<^verbatim>\<open>LIMIT\<close> whatever the order of the method calls). Rows with equal
  timestamps stay in table order here; the theorems about the page do not depend on that.
  \<^verbatim>\<open>OFFSET\<close> and \<^verbatim>\<open>LIMIT\<close> are 64-bit signed integers of the store: a value outside
  that range cannot be bound and the statement fails, after the count has run. What a
  negative value inside the range does depends on the backend (a failure in one, no limit
  in another): it is the parameter \<open>negative_page\<close>, given the ordered rows.
\<close>

definition order_by_created_at_desc :: "'r User list \<Rightarrow> 'r User list" where
  "order_by_created_at_desc rows = sort_key (\<lambda>u. - created_at u) rows"

definition int64 :: "int \<Rightarrow> bool" where
  "int64 n = (- (2 ^ 63) \<le> n \<and> n < 2 ^ 63)"

definition UserRepository_list ::
  "('r User list \<Rightarrow> int \<Rightarrow> int \<Rightarrow> error + 'r User list) \<Rightarrow> 'r User list \<Rightarrow> int \<Rightarrow> int
     \<Rightarrow> bool option \<Rightarrow> error + ('r User list \<times> int)" where
  "UserRepository_list negative_page s skip limit is_active' =
     (let rows = (case is_active' of
                    None \<Rightarrow> s
                  | Some b \<Rightarrow> filter (\<lambda>u. User.is_active u = b) s);
          total = int (length rows);
          ordered = order_by_created_at_desc rows
      in if \<not> int64 skip \<or> \<not> int64 limit then Inl StoreFailure
         else if skip < 0 \<or> limit < 0 then
           (case negative_page ordered skip limit of
              Inl e \<Rightarrow> Inl e
            | Inr users \<Rightarrow> Inr (users, total))
         else Inr (take (nat limit) (drop (nat skip) ordered), total))"

text \<open>
  \<^verbatim>\<open>UserRepository.create\<close>: add, flush, refresh. The row is appended and returned.
\<close>

definition UserRepository_create :: "'r User list \<Rightarrow> 'r User \<Rightarrow> 'r User \<times> 'r User list" where
  "UserRepository_create s user = (user, s @ [user])"

text \<open>
  \<^verbatim>\<open>UserRepository.update\<close>: flush, refresh. The flush writes the loaded object over its
  row when an attribute differs from the row, and writes nothing otherwise. Whether the
  table stamps \<^verbatim>\<open>updated_at\<close> on a write is declared in \<^verbatim>\<open>models.py\<close>: the stamp
  \<open>now\<close> is a parameter, and a table without the hook is the case where \<open>now\<close> is the old
  value. The refresh returns the row as written.
\<close>

definition flush :: "int \<Rightarrow> 'r User list \<Rightarrow> 'r User \<Rightarrow> 'r User list" where
  "flush now s user =
     map (\<lambda>row. if id' row = id' user \<and> row \<noteq> user then user\<lparr>updated_at := now\<rparr> else row) s"

definition refresh :: "'r User list \<Rightarrow> 'r User \<Rightarrow> 'r User" where
  "refresh s user =
     (case find (\<lambda>row. id' row = id' user) s of
        Some row \<Rightarrow> row
      | None \<Rightarrow> user)"

definition UserRepository_update :: "int \<Rightarrow> 'r User list \<Rightarrow> 'r User \<Rightarrow> 'r User \<times> 'r User list" where
  "UserRepository_update now s user =
     (let s' = flush now s user in (refresh s' user, s'))"

definition UserRepository_delete :: "'r User list \<Rightarrow> 'r User \<Rightarrow> 'r User list" where
  "UserRepository_delete s user = filter (\<lambda>row. id' row \<noteq> id' user) s"

section \<open>The service\<close>

text \<open>
  \<^verbatim>\<open>hash_password\<close> and \<^verbatim>\<open>verify_password\<close> of \<^verbatim>\<open>app.core.security\<close> are outside the
  sources: the operations that call them take them as parameters. A falsy value of an
  optional string of the source is \<^verbatim>\<open>None\<close> or the empty string.
\<close>

definition UserService_get_by_id :: "'r User list \<Rightarrow> string \<Rightarrow> error + 'r User" where
  "UserService_get_by_id s user_id =
     (case UserRepository_get_by_id s user_id of
        Inl e \<Rightarrow> Inl e
      | Inr None \<Rightarrow> Inl (UserNotFoundError (''User with ID '' @ user_id @ '' not found''))
      | Inr (Some user) \<Rightarrow> Inr user)"

definition UserService_get_by_email ::
  "(string \<Rightarrow> string) \<Rightarrow> 'r User list \<Rightarrow> string \<Rightarrow> error + 'r User" where
  "UserService_get_by_email lower s email' =
     (case UserRepository_get_by_email lower s email' of
        Inl e \<Rightarrow> Inl e
      | Inr None \<Rightarrow> Inl (UserNotFoundError (''User with email '' @ email' @ '' not found''))
      | Inr (Some user) \<Rightarrow> Inr user)"

definition UserService_list ::
  "('r User list \<Rightarrow> int \<Rightarrow> int \<Rightarrow> error + 'r User list) \<Rightarrow> 'r User list \<Rightarrow> int \<Rightarrow> int
     \<Rightarrow> bool option \<Rightarrow> error + ('r User list \<times> int)" where
  "UserService_list negative_page s page page_size is_active' =
     (let skip = (page - 1) * page_size
      in UserRepository_list negative_page s skip page_size is_active')"

text \<open>
  \<^verbatim>\<open>UserService.create\<close>: the email check, then the phone check, then the insert. The
  inner case is the phone test of the source, \<^verbatim>\<open>data.phone and exists_by_phone(data.phone)\<close>:
  it yields the phone to report when the test holds.
\<close>

definition UserService_create ::
  "(string \<Rightarrow> string) \<Rightarrow> (string \<Rightarrow> string) \<Rightarrow> ColumnDefaults \<Rightarrow> 'r User list \<Rightarrow> 'r UserCreate
     \<Rightarrow> (error + 'r User) \<times> 'r User list" where
  "UserService_create lower hash_password dflt s data =
     (if UserRepository_exists_by_email lower s (UserCreate.email data)
      then (Inl (UserAlreadyExistsError
                  (''User with email '' @ UserCreate.email data @ '' already exists'')), s)
      else
        (case (case UserCreate.phone data of
                 None \<Rightarrow> None
               | Some p \<Rightarrow> if p \<noteq> [] \<and> UserRepository_exists_by_phone s p then Some p else None) of
           Some p \<Rightarrow>
             (Inl (UserAlreadyExistsError (''User with phone '' @ p @ '' already exists'')), s)
         | None \<Rightarrow>
             (let user = User_init dflt
                           (lower (UserCreate.email data))
                           (UserCreate.first_name data)
                           (UserCreate.last_name data)
                           (UserCreate.phone data)
                           (UserCreate.role data)
                           (hash_password (UserCreate.password data));
                  (user', s') = UserRepository_create s user
              in (Inr user', s'))))"

text \<open>
  \<^verbatim>\<open>UserService.update\<close>, in the three blocks of the source: the email block, the phone
  block and the unconditional assignments. The first two test the patch value for
  truthiness and for a difference from the loaded value before they ask the repository.
  The session flushes pending assignments before it runs a query (autoflush, its
  default): when the phone block runs its query, the email that the email block assigned
  is written first, so a raise of the phone block leaves the table with that email
  written. The email block has nothing pending when it runs its query, raises before it
  assigns, and leaves the table as it was. The phone block returns the table its query
  left.
\<close>

definition update_email ::
  "(string \<Rightarrow> string) \<Rightarrow> 'r User list \<Rightarrow> 'r User \<Rightarrow> 'r UserUpdate \<Rightarrow> error + 'r User" where
  "update_email lower s user data =
     (case UserUpdate.email data of
        None \<Rightarrow> Inr user
      | Some e \<Rightarrow>
          if e \<noteq> [] \<and> lower e \<noteq> User.email user then
            if UserRepository_exists_by_email lower s e
            then Inl (UserAlreadyExistsError (''User with email '' @ e @ '' already exists''))
            else Inr (user\<lparr>User.email := lower e\<rparr>)
          else Inr user)"

definition update_phone ::
  "int \<Rightarrow> 'r User list \<Rightarrow> 'r User \<Rightarrow> 'r UserUpdate \<Rightarrow> (error + 'r User) \<times> 'r User list" where
  "update_phone now s user data =
     (case UserUpdate.phone data of
        None \<Rightarrow> (Inr user, s)
      | Some p \<Rightarrow>
          if p \<noteq> [] \<and> Some p \<noteq> User.phone user then
            (let s1 = flush now s user
             in if UserRepository_exists_by_phone s1 p
                then (Inl (UserAlreadyExistsError (''User with phone '' @ p @ '' already exists'')), s1)
                else (Inr (user\<lparr>User.phone := Some p\<rparr>), s1))
          else (Inr user, s))"

definition update_other_fields :: "'r User \<Rightarrow> 'r UserUpdate \<Rightarrow> 'r User" where
  "update_other_fields user data =
     (let user1 = (case UserUpdate.first_name data of
                     None \<Rightarrow> user
                   | Some v \<Rightarrow> user\<lparr>User.first_name := v\<rparr>);
          user2 = (case UserUpdate.last_name data of
                     None \<Rightarrow> user1
                   | Some v \<Rightarrow> user1\<lparr>User.last_name := v\<rparr>);
          user3 = (case UserUpdate.role data of
                     None \<Rightarrow> user2
                   | Some v \<Rightarrow> user2\<lparr>User.role := v\<rparr>);
          user4 = (case UserUpdate.is_active data of
                     None \<Rightarrow> user3
                   | Some v \<Rightarrow> user3\<lparr>User.is_active := v\<rparr>)
      in user4)"

definition UserService_update ::
  "(string \<Rightarrow> string) \<Rightarrow> int \<Rightarrow> 'r User list \<Rightarrow> string \<Rightarrow> 'r UserUpdate
     \<Rightarrow> (error + 'r User) \<times> 'r User list" where
  "UserService_update lower now s user_id data =
     (case UserService_get_by_id s user_id of
        Inl e \<Rightarrow> (Inl e, s)
      | Inr user \<Rightarrow>
          (case update_email lower s user data of
             Inl e \<Rightarrow> (Inl e, s)
           | Inr user1 \<Rightarrow>
               (let (r, s1) = update_phone now s user1 data
                in case r of
                     Inl e \<Rightarrow> (Inl e, s1)
                   | Inr user2 \<Rightarrow>
                       (let (user', s') = UserRepository_update now s1 (update_other_fields user2 data)
                        in (Inr user', s')))))"

definition UserService_update_password ::
  "(string \<Rightarrow> string) \<Rightarrow> (string \<Rightarrow> string \<Rightarrow> bool) \<Rightarrow> int \<Rightarrow> 'r User list
     \<Rightarrow> string \<Rightarrow> string \<Rightarrow> string \<Rightarrow> (error + 'r User) \<times> 'r User list" where
  "UserService_update_password hash_password verify_password now s user_id current_password new_password =
     (case UserService_get_by_id s user_id of
        Inl e \<Rightarrow> (Inl e, s)
      | Inr user \<Rightarrow>
          if \<not> verify_password current_password (password_hash user)
          then (Inl (InvalidPasswordError ''Current password is incorrect''), s)
          else
            (let (user', s') =
                   UserRepository_update now s (user\<lparr>password_hash := hash_password new_password\<rparr>)
             in (Inr user', s')))"

definition UserService_delete :: "'r User list \<Rightarrow> string \<Rightarrow> (error + unit) \<times> 'r User list" where
  "UserService_delete s user_id =
     (case UserService_get_by_id s user_id of
        Inl e \<Rightarrow> (Inl e, s)
      | Inr user \<Rightarrow> (Inr (), UserRepository_delete s user))"

definition UserService_verify_credentials ::
  "(string \<Rightarrow> string) \<Rightarrow> (string \<Rightarrow> string \<Rightarrow> bool) \<Rightarrow> 'r User list \<Rightarrow> string \<Rightarrow> string
     \<Rightarrow> error + 'r User" where
  "UserService_verify_credentials lower verify_password s email' password' =
     (case UserRepository_get_by_email lower s email' of
        Inl e \<Rightarrow> Inl e
      | Inr None \<Rightarrow> Inl (UserNotFoundError ''Invalid email or password'')
      | Inr (Some user) \<Rightarrow>
          if \<not> verify_password password' (password_hash user)
          then Inl (InvalidPasswordError ''Invalid email or password'')
          else if \<not> User.is_active user
          then Inl (UserServiceError ''User account is deactivated'')
          else Inr user)"

section \<open>Example data\<close>

text \<open>
  Values for the closed instances of the theorems below. The example strings are ASCII,
  and on ASCII text \<^verbatim>\<open>str.lower()\<close> maps the 26 capitals and keeps every other
  character: \<open>ascii_lower\<close> is the instance of the parameter \<open>lower\<close> there, and stands for
  nothing else. \<open>reject_negative\<close> is a backend that fails on a negative offset or limit.
  The hash of a password is the password behind a mark, and verification compares. Then
  three rows, column defaults, a creation input and three patches.
\<close>

definition ascii_lower_char :: "char \<Rightarrow> char" where
  "ascii_lower_char c =
     (case map_of (zip ''ABCDEFGHIJKLMNOPQRSTUVWXYZ'' ''abcdefghijklmnopqrstuvwxyz'') c of
        Some d \<Rightarrow> d
      | None \<Rightarrow> c)"

definition ascii_lower :: "string \<Rightarrow> string" where
  "ascii_lower s = map ascii_lower_char s"

definition reject_negative :: "string User list \<Rightarrow> int \<Rightarrow> int \<Rightarrow> error + string User list" where
  "reject_negative rows skip limit = Inl StoreFailure"

definition hash0 :: "string \<Rightarrow> string" where
  "hash0 p = ''#'' @ p"

definition verify0 :: "string \<Rightarrow> string \<Rightarrow> bool" where
  "verify0 p h = (h = ''#'' @ p)"

definition alice :: "string User" where
  "alice = \<lparr> id' = ''u1'', email = ''alice@example.com'', first_name = ''Alice'',
             last_name = ''Adams'', phone = Some ''555-0100'', role = ''teacher'',
             password_hash = ''#alice-pw-1'', is_active = True, is_verified = False,
             is_two_factor_enabled = False, created_at = 10, updated_at = 10 \<rparr>"

definition bob :: "string User" where
  "bob = \<lparr> id' = ''u2'', email = ''bob@example.com'', first_name = ''Bob'',
           last_name = ''Brown'', phone = None, role = ''student'',
           password_hash = ''#bob-pw-22'', is_active = False, is_verified = False,
           is_two_factor_enabled = False, created_at = 20, updated_at = 20 \<rparr>"

definition carol :: "string User" where
  "carol = \<lparr> id' = ''u3'', email = ''carol@example.com'', first_name = ''Carol'',
             last_name = ''Clark'', phone = Some ''555-0300'', role = ''student'',
             password_hash = ''#carol-pw-3'', is_active = True, is_verified = True,
             is_two_factor_enabled = False, created_at = 30, updated_at = 30 \<rparr>"

definition defaults0 :: ColumnDefaults where
  "defaults0 = \<lparr> default_id = ''u9'', default_is_active = True, default_is_verified = False,
                 default_is_two_factor_enabled = False, default_now = 40 \<rparr>"

definition signup :: "string \<Rightarrow> string option \<Rightarrow> string UserCreate" where
  "signup e p = \<lparr> UserCreate.email = e, UserCreate.first_name = ''Dana'',
                 UserCreate.last_name = ''Dale'', UserCreate.phone = p,
                 UserCreate.role = ''student'', UserCreate.password = ''dana-pw-44'' \<rparr>"

definition rename :: "string UserUpdate" where
  "rename = UserUpdate_default\<lparr>UserUpdate.first_name := Some ''Alicia''\<rparr>"

definition change_email :: "string \<Rightarrow> string UserUpdate" where
  "change_email e = UserUpdate_default\<lparr>UserUpdate.email := Some e\<rparr>"

definition blank_contacts :: "string UserUpdate" where
  "blank_contacts = UserUpdate_default\<lparr>UserUpdate.email := Some [], UserUpdate.phone := Some []\<rparr>"

section \<open>Lookups in a table\<close>

lemma filter_key_stored:
  "distinct (map f s) \<Longrightarrow> u \<in> set s \<Longrightarrow> filter (\<lambda>v. f v = f u) s = [u]"
proof (induction s)
  case Nil
  then show ?case by simp
next
  case (Cons a s)
  show ?case
  proof (cases "a = u")
    case True
    with Cons.prems have "f u \<notin> f ` set s" by simp
    then have "\<forall>v\<in>set s. f v \<noteq> f u" by (metis imageI)
    then have "filter (\<lambda>v. f v = f u) s = []"
      by (simp add: filter_empty_conv)
    with True show ?thesis by simp
  next
    case False
    with Cons.prems have in_s: "u \<in> set s" and "f a \<notin> f ` set s" by auto
    then have "f a \<noteq> f u" by auto
    with Cons.IH Cons.prems in_s show ?thesis by simp
  qed
qed

lemma get_by_id_stored:
  "distinct (map id' s) \<Longrightarrow> u \<in> set s \<Longrightarrow> UserRepository_get_by_id s (id' u) = Inr (Some u)"
  by (simp add: UserRepository_get_by_id_def filter_key_stored)

lemma get_by_email_stored:
  "distinct (map User.email s) \<Longrightarrow> u \<in> set s \<Longrightarrow> lower e = User.email u \<Longrightarrow>
   UserRepository_get_by_email lower s e = Inr (Some u)"
  by (simp add: UserRepository_get_by_email_def filter_key_stored)

lemma service_get_by_id_stored:
  "distinct (map id' s) \<Longrightarrow> u \<in> set s \<Longrightarrow> UserService_get_by_id s (id' u) = Inr u"
  by (simp add: UserService_get_by_id_def get_by_id_stored)

lemma exists_by_email_iff:
  "UserRepository_exists_by_email lower s e \<longleftrightarrow> (\<exists>u\<in>set s. User.email u = lower e)"
  by (simp add: UserRepository_exists_by_email_def filter_empty_conv)

lemma exists_by_phone_iff:
  "UserRepository_exists_by_phone s p \<longleftrightarrow> (\<exists>u\<in>set s. User.phone u = Some p)"
  by (simp add: UserRepository_exists_by_phone_def filter_empty_conv)

lemma get_by_email_Some:
  "UserRepository_get_by_email lower s e = Inr (Some u) \<Longrightarrow> u \<in> set s \<and> User.email u = lower e"
proof -
  assume a: "UserRepository_get_by_email lower s e = Inr (Some u)"
  let ?xs = "filter (\<lambda>v. User.email v = lower e) s"
  from a have "scalar_one_or_none ?xs = Inr (Some u)"
    by (simp add: UserRepository_get_by_email_def)
  then have "?xs = [u]"
    by (cases ?xs rule: scalar_one_or_none.cases) auto
  then have "u \<in> set ?xs" by simp
  then show ?thesis by simp
qed

lemma get_by_email_None:
  "UserRepository_get_by_email lower s e = Inr None \<longleftrightarrow> (\<forall>u\<in>set s. User.email u \<noteq> lower e)"
proof -
  let ?xs = "filter (\<lambda>v. User.email v = lower e) s"
  have "scalar_one_or_none ?xs = Inr None \<longleftrightarrow> ?xs = []"
    by (cases ?xs rule: scalar_one_or_none.cases) auto
  then show ?thesis
    by (simp add: UserRepository_get_by_email_def filter_empty_conv)
qed

lemma lower_examples:
  "ascii_lower ''Alice@Example.com'' = ''alice@example.com''"
  "ascii_lower ''alice@example.com'' = ''alice@example.com''"
  "ascii_lower ''bob@example.com'' = ''bob@example.com''"
  "ascii_lower ''carol@example.com'' = ''carol@example.com''"
  by (simp_all add: ascii_lower_def ascii_lower_char_def)

section \<open>Credential verification\<close>

text \<open>
  C1: \<open>verify_credentials\<close> makes three checks in order. When no row has the lowercased
  email it fails with \<open>UserNotFoundError\<close>; when the row is found and the password does
  not verify against its hash it fails with \<open>InvalidPasswordError\<close>; when the password
  verifies and the row is not active it fails with the plain \<open>UserServiceError\<close>; it
  returns the row otherwise, and a returned row has passed all three checks, so no failure
  returns a user. In particular a stored, deactivated user whose email is stored in lower
  case and is the only row with that email gets \<open>UserServiceError\<close> with the correct
  password.
\<close>

theorem verify_credentials_checks:
  fixes s :: "'r User list"
  shows
  "((\<forall>u\<in>set s. User.email u \<noteq> lower e) \<longrightarrow>
      UserService_verify_credentials lower vp s e pw = Inl (UserNotFoundError ''Invalid email or password''))
   \<and> (distinct (map User.email s) \<longrightarrow>
        (\<forall>u\<in>set s. User.email u = lower e \<longrightarrow>
           UserService_verify_credentials lower vp s e pw =
             (if \<not> vp pw (password_hash u) then Inl (InvalidPasswordError ''Invalid email or password'')
              else if \<not> User.is_active u then Inl (UserServiceError ''User account is deactivated'')
              else Inr u)))
   \<and> (\<forall>u. UserService_verify_credentials lower vp s e pw = Inr u \<longrightarrow>
          u \<in> set s \<and> User.email u = lower e \<and> vp pw (password_hash u) \<and> User.is_active u)
   \<and> (distinct (map User.email s) \<longrightarrow>
        (\<forall>u\<in>set s. lower (User.email u) = User.email u \<and> \<not> User.is_active u \<and> vp pw (password_hash u) \<longrightarrow>
           UserService_verify_credentials lower vp s (User.email u) pw =
             Inl (UserServiceError ''User account is deactivated'')))"
proof -
  have not_found: "UserService_verify_credentials lower vp s e pw = Inl (UserNotFoundError ''Invalid email or password'')"
    if "\<forall>u\<in>set s. User.email u \<noteq> lower e"
  proof -
    from that have "UserRepository_get_by_email lower s e = Inr None"
      by (simp add: get_by_email_None)
    then show ?thesis
      by (simp add: UserService_verify_credentials_def)
  qed
  have found: "UserService_verify_credentials lower vp s e' pw =
             (if \<not> vp pw (password_hash u) then Inl (InvalidPasswordError ''Invalid email or password'')
              else if \<not> User.is_active u then Inl (UserServiceError ''User account is deactivated'')
              else Inr u)"
    if "distinct (map User.email s)" "u \<in> set s" "User.email u = lower e'" for u e'
  proof -
    from that have "UserRepository_get_by_email lower s e' = Inr (Some u)"
      by (simp add: get_by_email_stored)
    then show ?thesis
      by (simp add: UserService_verify_credentials_def)
  qed
  have only: "u \<in> set s \<and> User.email u = lower e \<and> vp pw (password_hash u) \<and> User.is_active u"
    if ok: "UserService_verify_credentials lower vp s e pw = Inr u" for u
  proof -
    from ok obtain v where v: "UserRepository_get_by_email lower s e = Inr (Some v)"
      by (auto simp: UserService_verify_credentials_def split: sum.splits option.splits)
    with ok have "v = u" "vp pw (password_hash v)" "User.is_active v"
      by (auto simp: UserService_verify_credentials_def split: if_splits)
    with get_by_email_Some [OF v] show ?thesis
      by blast
  qed
  have inactive: "UserService_verify_credentials lower vp s (User.email u) pw =
             Inl (UserServiceError ''User account is deactivated'')"
    if "distinct (map User.email s)" "u \<in> set s"
      "lower (User.email u) = User.email u \<and> \<not> User.is_active u \<and> vp pw (password_hash u)" for u
    using found [of u "User.email u"] that by simp
  from not_found found [where e' = e] only inactive show ?thesis
    by blast
qed

theorem verify_credentials_checks_witness:
  "UserService_verify_credentials ascii_lower verify0 [alice, bob] ''carol@example.com'' ''bob-pw-22''
     = Inl (UserNotFoundError ''Invalid email or password'')
   \<and> UserService_verify_credentials ascii_lower verify0 [alice, bob] ''Alice@Example.com'' ''bob-pw-22''
     = Inl (InvalidPasswordError ''Invalid email or password'')
   \<and> UserService_verify_credentials ascii_lower verify0 [alice, bob] ''Alice@Example.com'' ''alice-pw-1''
     = Inr alice
   \<and> \<not> User.is_active bob \<and> verify0 ''bob-pw-22'' (password_hash bob)
   \<and> UserService_verify_credentials ascii_lower verify0 [alice, bob] ''bob@example.com'' ''bob-pw-22''
     = Inl (UserServiceError ''User account is deactivated'')"
  using verify_credentials_checks [where lower = ascii_lower and s = "[alice, bob]" and vp = verify0
            and e = "''carol@example.com''" and pw = "''bob-pw-22''"]
        verify_credentials_checks [where lower = ascii_lower and s = "[alice, bob]" and vp = verify0
            and e = "''Alice@Example.com''" and pw = "''bob-pw-22''"]
        verify_credentials_checks [where lower = ascii_lower and s = "[alice, bob]" and vp = verify0
            and e = "''Alice@Example.com''" and pw = "''alice-pw-1''"]
        verify_credentials_checks [where lower = ascii_lower and s = "[alice, bob]" and vp = verify0
            and e = "''bob@example.com''" and pw = "''bob-pw-22''"]
  by (simp add: alice_def bob_def verify0_def lower_examples)


section \<open>Creation\<close>

lemma create_email_taken:
  "\<exists>u\<in>set s. User.email u = lower (UserCreate.email d) \<Longrightarrow>
   UserService_create lower hp dflt s d =
     (Inl (UserAlreadyExistsError (''User with email '' @ UserCreate.email d @ '' already exists'')), s)"
  by (simp add: UserService_create_def exists_by_email_iff)

lemma create_phone_taken:
  "\<forall>u\<in>set s. User.email u \<noteq> lower (UserCreate.email d) \<Longrightarrow>
   UserCreate.phone d = Some p \<Longrightarrow> p \<noteq> [] \<Longrightarrow> \<exists>u\<in>set s. User.phone u = Some p \<Longrightarrow>
   UserService_create lower hp dflt s d =
     (Inl (UserAlreadyExistsError (''User with phone '' @ p @ '' already exists'')), s)"
  by (simp add: UserService_create_def exists_by_email_iff exists_by_phone_iff)

lemma create_unused:
  assumes "\<forall>u\<in>set s. User.email u \<noteq> lower (UserCreate.email d)"
    and "\<forall>p. UserCreate.phone d = Some p \<longrightarrow> (\<forall>u\<in>set s. User.phone u \<noteq> Some p)"
  shows "UserService_create lower hp dflt s d =
     (let user = User_init dflt (lower (UserCreate.email d)) (UserCreate.first_name d)
                   (UserCreate.last_name d) (UserCreate.phone d) (UserCreate.role d)
                   (hp (UserCreate.password d))
      in (Inr user, s @ [user]))"
  using assms
  by (cases "UserCreate.phone d")
     (simp_all add: UserService_create_def exists_by_email_iff exists_by_phone_iff
        UserRepository_create_def Let_def)

lemma create_Inr:
  assumes "UserService_create lower hp dflt s d = (Inr u, s')"
  shows "s' = s @ [u] \<and> User.email u = lower (UserCreate.email d)
         \<and> (\<forall>v\<in>set s. User.email v \<noteq> lower (UserCreate.email d))"
  using assms
  by (auto simp: UserService_create_def exists_by_email_iff UserRepository_create_def Let_def
        User_init_def split: if_splits option.splits)


lemma lower_dana: "ascii_lower ''Dana@Example.com'' = ''dana@example.com''"
  by (simp add: ascii_lower_def ascii_lower_char_def)

text \<open>
  C2: when the email of a creation input equals, up to case (the two have the same
  lowercase form), the email of a stored user, in a table whose emails are stored in lower
  case, \<open>create\<close> fails with \<open>UserAlreadyExistsError\<close> and the table is unchanged. The
  scenario, for a lowercase function that sends \<open>Alice@Example.com\<close> and
  \<open>alice@example.com\<close> to \<open>alice@example.com\<close>, as \<^verbatim>\<open>str.lower()\<close> does: once a user
  was created with the email \<open>Alice@Example.com\<close>, \<open>exists_by_email\<close> of
  \<open>alice@example.com\<close> is true and creating a second user with that email fails with
  \<open>UserAlreadyExistsError\<close>, the table unchanged.
\<close>

theorem create_duplicate_email:
  fixes s :: "'r User list" and a b :: "'r UserCreate"
  shows
  "(\<forall>u\<in>set s. (\<forall>v\<in>set s. lower (User.email v) = User.email v)
        \<and> lower (UserCreate.email d) = lower (User.email u) \<longrightarrow>
      UserService_create lower hp dflt s d =
        (Inl (UserAlreadyExistsError
               (''User with email '' @ UserCreate.email d @ '' already exists'')), s))
   \<and> (lower ''Alice@Example.com'' = ''alice@example.com''
        \<and> lower ''alice@example.com'' = ''alice@example.com''
        \<and> UserCreate.email a = ''Alice@Example.com'' \<and> UserCreate.email b = ''alice@example.com''
        \<and> UserService_create lower hp dflt s a = (Inr ua, s') \<longrightarrow>
      UserRepository_exists_by_email lower s' ''alice@example.com''
      \<and> UserService_create lower hp' dflt' s' b =
          (Inl (UserAlreadyExistsError ''User with email alice@example.com already exists''), s'))"
proof -
  have dup: "UserService_create lower hp dflt s d =
        (Inl (UserAlreadyExistsError
               (''User with email '' @ UserCreate.email d @ '' already exists'')), s)"
    if "u \<in> set s" "\<forall>v\<in>set s. lower (User.email v) = User.email v"
      "lower (UserCreate.email d) = lower (User.email u)" for u
  proof -
    from that have "User.email u = lower (UserCreate.email d)" by simp
    with \<open>u \<in> set s\<close> show ?thesis
      by (intro create_email_taken) blast
  qed
  have scenario: "UserRepository_exists_by_email lower s' ''alice@example.com''
      \<and> UserService_create lower hp' dflt' s' b =
          (Inl (UserAlreadyExistsError ''User with email alice@example.com already exists''), s')"
    if low: "lower ''Alice@Example.com'' = ''alice@example.com''"
        "lower ''alice@example.com'' = ''alice@example.com''"
      and a: "UserCreate.email a = ''Alice@Example.com''"
      and b: "UserCreate.email b = ''alice@example.com''"
      and ok: "UserService_create lower hp dflt s a = (Inr ua, s')"
  proof -
    from create_Inr [OF ok] a have "ua \<in> set s'" "User.email ua = ''alice@example.com''"
      by (simp_all add: low)
    then have ex: "\<exists>u\<in>set s'. User.email u = ''alice@example.com''" by blast
    then have "UserRepository_exists_by_email lower s' ''alice@example.com''"
      by (simp add: exists_by_email_iff low)
    moreover from ex b have "UserService_create lower hp' dflt' s' b =
          (Inl (UserAlreadyExistsError (''User with email '' @ UserCreate.email b @ '' already exists'')), s')"
      by (intro create_email_taken) (simp add: low)
    ultimately show ?thesis using b by simp
  qed
  from dup scenario show ?thesis by blast
qed

theorem create_duplicate_email_witness:
  "UserService_create ascii_lower hash0 defaults0 [alice, bob] (signup ''ALICE@example.com'' None) =
     (Inl (UserAlreadyExistsError ''User with email ALICE@example.com already exists''), [alice, bob])
   \<and> (\<exists>ua. UserService_create ascii_lower hash0 defaults0 [bob] (signup ''Alice@Example.com'' None) = (Inr ua, [bob, ua])
        \<and> UserRepository_exists_by_email ascii_lower [bob, ua] ''alice@example.com''
        \<and> UserService_create ascii_lower hash0 defaults0 [bob, ua] (signup ''alice@example.com'' (Some ''555-0400'')) =
            (Inl (UserAlreadyExistsError ''User with email alice@example.com already exists''), [bob, ua]))"
proof -
  have low: "ascii_lower ''ALICE@example.com'' = ''alice@example.com''"
    by (simp add: ascii_lower_def ascii_lower_char_def)
  have first: "UserService_create ascii_lower hash0 defaults0 [bob] (signup ''Alice@Example.com'' None) =
      (Inr (User_init defaults0 ''alice@example.com'' ''Dana'' ''Dale'' None ''student'' (hash0 ''dana-pw-44'')),
       [bob, User_init defaults0 ''alice@example.com'' ''Dana'' ''Dale'' None ''student'' (hash0 ''dana-pw-44'')])"
    by (simp add: UserService_create_def exists_by_email_iff UserRepository_create_def signup_def
          bob_def lower_examples Let_def)
  show ?thesis
    using create_duplicate_email [where lower = ascii_lower and s = "[alice, bob]"
            and d = "signup ''ALICE@example.com'' None" and hp = hash0 and dflt = defaults0
            and a = "signup ''Alice@Example.com'' None"
            and b = "signup ''alice@example.com'' (Some ''555-0400'')"]
      create_duplicate_email [where lower = ascii_lower and s = "[bob]"
            and d = "signup ''ALICE@example.com'' None" and hp = hash0 and dflt = defaults0
            and a = "signup ''Alice@Example.com'' None"
            and b = "signup ''alice@example.com'' (Some ''555-0400'')"
            and ua = "User_init defaults0 ''alice@example.com'' ''Dana'' ''Dale'' None ''student'' (hash0 ''dana-pw-44'')"
            and s' = "[bob, User_init defaults0 ''alice@example.com'' ''Dana'' ''Dale'' None ''student'' (hash0 ''dana-pw-44'')]"
            and hp' = hash0 and dflt' = defaults0]
      first
    by (simp add: alice_def bob_def signup_def low lower_examples)
qed


text \<open>
  C7: when no stored email is the lowercased email of the input (hence, lowercasing being
  idempotent, when none equals it up to case) and no stored phone is the phone of the
  input, \<open>create\<close> succeeds,
  appends the returned row, and the returned row's email is the lowercased input email.
  Nothing else about the input is needed.
\<close>

theorem create_unused_email_and_phone:
  assumes "\<forall>u\<in>set s. User.email u \<noteq> lower (UserCreate.email d)"
    and "\<forall>p. UserCreate.phone d = Some p \<longrightarrow> (\<forall>u\<in>set s. User.phone u \<noteq> Some p)"
  shows "\<exists>u. UserService_create lower hp dflt s d = (Inr u, s @ [u])
             \<and> User.email u = lower (UserCreate.email d)"
proof -
  let ?user = "User_init dflt (lower (UserCreate.email d)) (UserCreate.first_name d)
                 (UserCreate.last_name d) (UserCreate.phone d) (UserCreate.role d)
                 (hp (UserCreate.password d))"
  from create_unused [where lower = lower and hp = hp and dflt = dflt, OF assms]
  have "UserService_create lower hp dflt s d = (Inr ?user, s @ [?user])"
    by (simp add: Let_def)
  moreover have "User.email ?user = lower (UserCreate.email d)"
    by (simp add: User_init_def)
  ultimately show ?thesis by blast
qed

theorem create_unused_email_and_phone_witness:
  "\<exists>u. UserService_create ascii_lower hash0 defaults0 [alice, bob]
          (signup ''Dana@Example.com'' (Some ''555-0400'')) = (Inr u, [alice, bob, u])
       \<and> User.email u = ''dana@example.com''"
  using create_unused_email_and_phone
          [where lower = ascii_lower and s = "[alice, bob]"
             and d = "signup ''Dana@Example.com'' (Some ''555-0400'')" and hp = hash0
             and dflt = defaults0]
  by (simp add: alice_def bob_def signup_def lower_dana)

text \<open>
  C8: the email check comes first. When the lowercased email of the input is stored,
  \<open>create\<close> fails with the email message whatever the phone of the input is, so also
  when the phone is stored as well; the phone message is reported only when the email is
  free. One violation is reported, the first one found.
\<close>

theorem create_reports_first_violation:
  fixes s :: "'r User list"
  shows
  "((\<exists>u\<in>set s. User.email u = lower (UserCreate.email d)) \<longrightarrow>
      UserService_create lower hp dflt s d =
        (Inl (UserAlreadyExistsError
               (''User with email '' @ UserCreate.email d @ '' already exists'')), s))
   \<and> ((\<forall>u\<in>set s. User.email u \<noteq> lower (UserCreate.email d))
        \<and> UserCreate.phone d = Some p \<and> p \<noteq> [] \<and> (\<exists>u\<in>set s. User.phone u = Some p) \<longrightarrow>
      UserService_create lower hp dflt s d =
        (Inl (UserAlreadyExistsError (''User with phone '' @ p @ '' already exists'')), s))"
  using create_email_taken [where lower = lower and s = s and d = d and hp = hp and dflt = dflt]
    create_phone_taken [where lower = lower and s = s and d = d and p = p and hp = hp and dflt = dflt]
  by blast

theorem create_reports_first_violation_witness:
  "UserService_create ascii_lower hash0 defaults0 [alice, bob] (signup ''Bob@Example.com'' (Some ''555-0100'')) =
     (Inl (UserAlreadyExistsError ''User with email Bob@Example.com already exists''), [alice, bob])
   \<and> UserService_create ascii_lower hash0 defaults0 [alice, bob] (signup ''Dana@Example.com'' (Some ''555-0100'')) =
     (Inl (UserAlreadyExistsError ''User with phone 555-0100 already exists''), [alice, bob])"
proof -
  have low: "ascii_lower ''Bob@Example.com'' = ''bob@example.com''"
    by (simp add: ascii_lower_def ascii_lower_char_def)
  show ?thesis
    using create_reports_first_violation
            [where lower = ascii_lower and s = "[alice, bob]" and hp = hash0 and dflt = defaults0
               and d = "signup ''Bob@Example.com'' (Some ''555-0100'')" and p = "''555-0100''"]
      create_reports_first_violation
            [where lower = ascii_lower and s = "[alice, bob]" and hp = hash0 and dflt = defaults0
               and d = "signup ''Dana@Example.com'' (Some ''555-0100'')" and p = "''555-0100''"]
    by (simp add: alice_def bob_def signup_def low lower_dana)
qed


section \<open>Listing\<close>

lemma mset_order_by_created_at_desc: "mset (order_by_created_at_desc rows) = mset rows"
  by (simp add: order_by_created_at_desc_def)

lemma sorted_order_by_created_at_desc:
  "sorted_wrt (\<lambda>a b. created_at b \<le> created_at a) (order_by_created_at_desc rows)"
proof -
  have "sorted (map (\<lambda>u. - created_at u) (order_by_created_at_desc rows))"
    by (simp add: order_by_created_at_desc_def)
  then show ?thesis
    by (simp add: sorted_map)
qed

lemma repository_list_page:
  "0 \<le> skip \<Longrightarrow> skip < 2 ^ 63 \<Longrightarrow> 0 \<le> limit \<Longrightarrow> limit < 2 ^ 63 \<Longrightarrow>
   UserRepository_list neg s skip limit f =
     Inr (take (nat limit) (drop (nat skip)
            (order_by_created_at_desc
               (filter (\<lambda>u. case f of None \<Rightarrow> True | Some b \<Rightarrow> User.is_active u = b) s))),
          int (length (filter (\<lambda>u. case f of None \<Rightarrow> True | Some b \<Rightarrow> User.is_active u = b) s)))"
  by (cases f) (simp_all add: UserRepository_list_def int64_def Let_def)

lemma list_out_of_range:
  "\<not> int64 ((page - 1) * page_size) \<or> \<not> int64 page_size \<Longrightarrow>
   UserService_list neg s page page_size f = Inl StoreFailure"
  by (auto simp: UserService_list_def UserRepository_list_def Let_def)

lemma list_negative_size_no_page:
  "page_size < 0 \<Longrightarrow>
   \<not> (\<exists>items total. UserService_list neg s page page_size f = Inr (items, total)
          \<and> int (length items) \<le> page_size)"
  by auto

lemma list_second_page_example:
  "UserService_list reject_negative [alice, bob, carol] 2 1 (Some True) = Inr ([alice], 2)"
  by (simp add: UserService_list_def UserRepository_list_def int64_def
        order_by_created_at_desc_def alice_def bob_def carol_def)

text \<open>
  C3, as stated for every page size, fails: a page size of \<open>2 ^ 63\<close> is not a 64-bit
  \<^verbatim>\<open>LIMIT\<close>, and \<open>list\<close> raises instead of returning a page and a count. (For a
  negative page size no backend returns a page of at most that many rows, by the lemma
  above.)
\<close>

theorem list_page_size_counterexample:
  "UserService_list reject_negative [alice, bob, carol] 1 9223372036854775808 None = Inl StoreFailure"
  by (simp add: UserService_list_def UserRepository_list_def int64_def Let_def)

text \<open>
  C3, amended: for every active filter there is one ordering \<open>ys\<close> of the stored users
  that match the filter, descending in creation time, such that for every page from 1 and
  every page size from 0, with the page size and the offset \<open>(page - 1) * page_size\<close>
  below \<open>2 ^ 63\<close>, \<open>list\<close> returns the slice of \<open>ys\<close> that starts at that offset and has
  at most \<open>page_size\<close> rows, together with the number of matching users, which depends
  on neither the page nor the page size. Page 2 of size 10 is the 11th to the 20th row of
  \<open>ys\<close>.
\<close>

theorem list_page:
  fixes s :: "'r User list"
  shows
  "\<exists>ys. mset ys = mset (filter (\<lambda>u. case f of None \<Rightarrow> True | Some b \<Rightarrow> User.is_active u = b) s)
      \<and> sorted_wrt (\<lambda>a b. created_at b \<le> created_at a) ys
      \<and> (\<forall>page page_size. 1 \<le> page \<and> 0 \<le> page_size \<and> page_size < 2 ^ 63
              \<and> (page - 1) * page_size < 2 ^ 63 \<longrightarrow>
            UserService_list neg s page page_size f =
              Inr (take (nat page_size) (drop (nat ((page - 1) * page_size)) ys),
                   int (length (filter (\<lambda>u. case f of None \<Rightarrow> True | Some b \<Rightarrow> User.is_active u = b) s))))
      \<and> UserService_list neg s 2 10 f =
            Inr (take 10 (drop 10 ys),
                 int (length (filter (\<lambda>u. case f of None \<Rightarrow> True | Some b \<Rightarrow> User.is_active u = b) s)))"
proof -
  let ?rows = "filter (\<lambda>u. case f of None \<Rightarrow> True | Some b \<Rightarrow> User.is_active u = b) s"
  let ?ys = "order_by_created_at_desc ?rows"
  have page: "UserService_list neg s page page_size f =
      Inr (take (nat page_size) (drop (nat ((page - 1) * page_size)) ?ys), int (length ?rows))"
    if "1 \<le> page" "0 \<le> page_size" "page_size < 2 ^ 63" "(page - 1) * page_size < 2 ^ 63"
    for page page_size
  proof -
    from that have "0 \<le> (page - 1) * page_size" by simp
    with that show ?thesis
      by (simp add: UserService_list_def repository_list_page)
  qed
  have "UserService_list neg s 2 10 f = Inr (take 10 (drop 10 ?ys), int (length ?rows))"
    using page [of 2 10] by simp
  with page mset_order_by_created_at_desc [of ?rows] sorted_order_by_created_at_desc [of ?rows]
  show ?thesis by blast
qed

theorem list_page_witness:
  "\<exists>ys. mset ys = mset [alice, carol]
      \<and> sorted_wrt (\<lambda>a b. created_at b \<le> created_at a) ys
      \<and> UserService_list reject_negative [alice, bob, carol] 2 1 (Some True) = Inr (take 1 (drop 1 ys), 2)
      \<and> UserService_list reject_negative [alice, bob, carol] 1 0 (Some True) = Inr ([], 2)"
proof -
  have rows: "filter (\<lambda>u. case Some True of None \<Rightarrow> True | Some b \<Rightarrow> User.is_active u = b)
                [alice, bob, carol] = [alice, carol]"
    by (simp add: alice_def bob_def carol_def)
  from list_page [where f = "Some True" and s = "[alice, bob, carol]" and neg = reject_negative]
  obtain ys where ys: "mset ys = mset [alice, carol]"
      "sorted_wrt (\<lambda>a b. created_at b \<le> created_at a) ys"
      "\<forall>page page_size. 1 \<le> page \<and> 0 \<le> page_size \<and> page_size < 2 ^ 63
              \<and> (page - 1) * page_size < 2 ^ 63 \<longrightarrow>
            UserService_list reject_negative [alice, bob, carol] page page_size (Some True) =
              Inr (take (nat page_size) (drop (nat ((page - 1) * page_size)) ys), 2)"
    unfolding rows by auto
  from ys(3) [rule_format, of 2 1]
  have "UserService_list reject_negative [alice, bob, carol] 2 1 (Some True) = Inr (take 1 (drop 1 ys), 2)"
    by simp
  moreover from ys(3) [rule_format, of 1 0]
  have "UserService_list reject_negative [alice, bob, carol] 1 0 (Some True) = Inr ([], 2)"
    by simp
  ultimately show ?thesis using ys(1,2) by blast
qed


section \<open>Writing a loaded row back\<close>

lemma same_id_stored:
  "distinct (map id' s) \<Longrightarrow> u \<in> set s \<Longrightarrow> row \<in> set s \<Longrightarrow> id' row = id' u \<Longrightarrow> row = u"
  by (metis distinct_map inj_onD)

lemma flush_stored:
  assumes "distinct (map id' s)" "u \<in> set s" "id' user = id' u"
    and w: "w = (if user = u then u else user\<lparr>updated_at := now\<rparr>)"
  shows "flush now s user = map (\<lambda>row. if row = u then w else row) s"
  unfolding flush_def
proof (rule map_cong [OF refl])
  fix row assume "row \<in> set s"
  with assms have "id' row = id' user \<longleftrightarrow> row = u"
    using same_id_stored [of s u row] by auto
  then show "(if id' row = id' user \<and> row \<noteq> user then user\<lparr>updated_at := now\<rparr> else row) =
             (if row = u then w else row)"
    by (auto simp: w)
qed

lemma find_replaced:
  "distinct (map id' s) \<Longrightarrow> u \<in> set s \<Longrightarrow> id' w = id' u \<Longrightarrow>
   find (\<lambda>row. id' row = id' u) (map (\<lambda>row. if row = u then w else row) s) = Some w"
proof (induction s)
  case Nil
  then show ?case by simp
next
  case (Cons a s)
  show ?case
  proof (cases "a = u")
    case True
    with Cons.prems show ?thesis by simp
  next
    case False
    with Cons.prems have "u \<in> set s" by simp
    with Cons.prems False have "id' a \<noteq> id' u"
      by (metis distinct.simps(2) image_eqI list.simps(9) set_map)
    with Cons False \<open>u \<in> set s\<close> show ?thesis by simp
  qed
qed

lemma repository_update_stored:
  assumes "distinct (map id' s)" "u \<in> set s" "id' user = id' u"
    and w: "w = (if user = u then u else user\<lparr>updated_at := now\<rparr>)"
  shows "UserRepository_update now s user = (w, map (\<lambda>row. if row = u then w else row) s)"
proof -
  have "id' w = id' u"
    using assms(3) by (simp add: w)
  with assms(1-3) flush_stored [OF assms] show ?thesis
    by (simp add: UserRepository_update_def refresh_def find_replaced Let_def)
qed

lemma replaced_emails:
  "User.email w = User.email u \<Longrightarrow>
   map User.email (map (\<lambda>row. if row = u then w else row) s) = map User.email s"
  by (induction s) auto

lemma replaced_member:
  "u \<in> set s \<Longrightarrow> w \<in> set (map (\<lambda>row. if row = u then w else row) s)"
  by (induction s) auto

lemma update_password_stored:
  assumes "distinct (map id' s)" "u \<in> set s" "vp cur (password_hash u)"
    and w: "w = (if u\<lparr>password_hash := hp new\<rparr> = u then u
                 else u\<lparr>password_hash := hp new, updated_at := now\<rparr>)"
  shows "UserService_update_password hp vp now s (id' u) cur new =
           (Inr w, map (\<lambda>row. if row = u then w else row) s)"
proof -
  have "UserRepository_update now s (u\<lparr>password_hash := hp new\<rparr>) =
          (w, map (\<lambda>row. if row = u then w else row) s)"
    using assms(1,2) w by (intro repository_update_stored) simp_all
  with assms(1-3) show ?thesis
    by (simp add: UserService_update_password_def service_get_by_id_stored)
qed

section \<open>Password change\<close>

text \<open>
  C4: for a stored user, in a table with one row per identifier, a current password that
  does not verify against the stored hash makes \<open>update_password\<close> fail with
  \<open>InvalidPasswordError\<close>, and the table it leaves is the table it was given: the hash
  and every other field of every row are unchanged.
\<close>

theorem update_password_wrong_current:
  assumes "distinct (map id' s)" and "u \<in> set s" and "\<not> vp cur (password_hash u)"
  shows "UserService_update_password hp vp now s (id' u) cur new =
           (Inl (InvalidPasswordError ''Current password is incorrect''), s)"
  using assms by (simp add: UserService_update_password_def service_get_by_id_stored)

theorem update_password_wrong_current_witness:
  "\<not> verify0 ''alice-pw-1'' (password_hash bob)
   \<and> UserService_update_password hash0 verify0 50 [alice, bob] ''u2'' ''alice-pw-1'' ''new-pw-333'' =
       (Inl (InvalidPasswordError ''Current password is incorrect''), [alice, bob])"
  using update_password_wrong_current
          [of "[alice, bob]" bob verify0 "''alice-pw-1''" hash0 50 "''new-pw-333''"]
  by (simp add: alice_def bob_def verify0_def)

text \<open>
  C5: for an active stored user, in a table with one row per identifier and per email and
  the user's email stored in lower case, \<open>update_password\<close> with a current password
  that verifies succeeds; in the table it leaves, \<open>verify_credentials\<close> with the user's
  email and the new password returns the updated user, and with the old password it fails
  with \<open>InvalidPasswordError\<close>. The password primitive is a parameter: the new password
  verifies against its own hash and the old password does not.
\<close>

theorem update_password_then_verify:
  assumes "distinct (map id' s)" and "distinct (map User.email s)" and "u \<in> set s"
    and "lower (User.email u) = User.email u" and "User.is_active u"
    and "vp cur (password_hash u)"
    and "vp new (hp new)" and "\<not> vp cur (hp new)"
  shows "\<exists>u' s'. UserService_update_password hp vp now s (id' u) cur new = (Inr u', s')
           \<and> UserService_verify_credentials lower vp s' (User.email u) new = Inr u'
           \<and> UserService_verify_credentials lower vp s' (User.email u) cur =
               Inl (InvalidPasswordError ''Invalid email or password'')"
proof -
  define w where "w = (if u\<lparr>password_hash := hp new\<rparr> = u then u
                       else u\<lparr>password_hash := hp new, updated_at := now\<rparr>)"
  define s' where "s' = map (\<lambda>row. if row = u then w else row) s"
  have w_email: "User.email w = User.email u"
    and w_active: "User.is_active w"
    using assms(5) by (simp_all add: w_def)
  have w_hash: "password_hash w = hp new"
  proof (cases "u\<lparr>password_hash := hp new\<rparr> = u")
    case True
    then have "password_hash (u\<lparr>password_hash := hp new\<rparr>) = password_hash u" by simp
    with True show ?thesis by (simp add: w_def)
  next
    case False
    then show ?thesis by (simp add: w_def)
  qed
  have upd: "UserService_update_password hp vp now s (id' u) cur new = (Inr w, s')"
    unfolding s'_def using assms(1,3,6) w_def by (rule update_password_stored)
  have "distinct (map User.email s')" "w \<in> set s'"
    using assms(2,3) w_email by (simp_all only: s'_def replaced_emails replaced_member)
  with assms(4) w_email have "UserRepository_get_by_email lower s' (User.email u) = Inr (Some w)"
    by (simp add: get_by_email_stored)
  with w_hash w_active assms(7,8)
  have "UserService_verify_credentials lower vp s' (User.email u) new = Inr w"
    and "UserService_verify_credentials lower vp s' (User.email u) cur =
           Inl (InvalidPasswordError ''Invalid email or password'')"
    by (simp_all add: UserService_verify_credentials_def)
  with upd show ?thesis by blast
qed

theorem update_password_then_verify_witness:
  "\<exists>u' s'. UserService_update_password hash0 verify0 50 [alice, bob] ''u1'' ''alice-pw-1'' ''new-pw-333''
              = (Inr u', s')
           \<and> UserService_verify_credentials ascii_lower verify0 s' ''alice@example.com'' ''new-pw-333'' = Inr u'
           \<and> UserService_verify_credentials ascii_lower verify0 s' ''alice@example.com'' ''alice-pw-1'' =
               Inl (InvalidPasswordError ''Invalid email or password'')"
  using update_password_then_verify
          [where lower = ascii_lower and s = "[alice, bob]" and u = alice and vp = verify0
             and cur = "''alice-pw-1''" and new = "''new-pw-333''" and hp = hash0 and now = 50]
  by (simp add: alice_def bob_def verify0_def hash0_def lower_examples)

section \<open>Update\<close>

lemma update_email_Inr:
  assumes "update_email lower s user p = Inr u1"
  shows "u1 = user\<lparr>User.email := User.email u1\<rparr>"
    and "UserUpdate.email p = None \<or> UserUpdate.email p = Some [] \<Longrightarrow> u1 = user"
  using assms by (auto simp: update_email_def split: option.splits if_splits)

lemma update_phone_Inr:
  assumes "fst (update_phone now s user p) = Inr u2"
  shows "u2 = user\<lparr>User.phone := User.phone u2\<rparr>"
    and "UserUpdate.phone p = None \<or> UserUpdate.phone p = Some [] \<Longrightarrow> u2 = user"
    and "User.phone user \<noteq> None \<Longrightarrow> User.phone u2 \<noteq> None"
    and "(u2 = user \<and> snd (update_phone now s user p) = s)
         \<or> (User.phone u2 \<noteq> User.phone user \<and> snd (update_phone now s user p) = flush now s user)"
  using assms by (auto simp: update_phone_def Let_def split: option.splits if_splits)

lemma update_phone_Inl:
  assumes "fst (update_phone now s user p) = Inl e"
  shows "\<exists>x. e = UserAlreadyExistsError (''User with phone '' @ x @ '' already exists'')"
    and "snd (update_phone now s user p) = flush now s user"
  using assms by (auto simp: update_phone_def Let_def split: option.splits if_splits)

lemma update_other_fields_frame:
  "update_other_fields user p =
     user\<lparr>User.first_name := User.first_name (update_other_fields user p),
          User.last_name := User.last_name (update_other_fields user p),
          User.role := User.role (update_other_fields user p),
          User.is_active := User.is_active (update_other_fields user p)\<rparr>"
  by (simp add: update_other_fields_def split: option.splits)

lemma update_other_fields_absent:
  "UserUpdate.first_name p = None \<Longrightarrow> User.first_name (update_other_fields user p) = User.first_name user"
  "UserUpdate.last_name p = None \<Longrightarrow> User.last_name (update_other_fields user p) = User.last_name user"
  "UserUpdate.role p = None \<Longrightarrow> User.role (update_other_fields user p) = User.role user"
  "UserUpdate.is_active p = None \<Longrightarrow> User.is_active (update_other_fields user p) = User.is_active user"
  by (simp_all add: update_other_fields_def split: option.splits)

lemma update_other_fields_keeps:
  "id' (update_other_fields user p) = id' user"
  "User.phone (update_other_fields user p) = User.phone user"
  "User.email (update_other_fields user p) = User.email user"
  by (subst update_other_fields_frame, simp)+

lemma update_email_keeps:
  assumes "update_email lower s user p = Inr u1"
  shows "id' u1 = id' user" "User.phone u1 = User.phone user"
  using assms by (auto simp: update_email_def split: option.splits if_splits)

lemma update_phone_keeps:
  assumes "fst (update_phone now s user p) = Inr u2"
  shows "id' u2 = id' user" "User.email u2 = User.email user"
  using assms by (auto simp: update_phone_def Let_def split: option.splits if_splits)

lemma replaced_distinct:
  assumes "distinct (map f s)" "f w = f u \<or> f w \<notin> f ` set s"
  shows "distinct (map f (map (\<lambda>row. if row = u then w else row) s))"
  using assms
proof (induction s)
  case Nil
  then show ?case by simp
next
  case (Cons a s)
  then have IH: "distinct (map f (map (\<lambda>row. if row = u then w else row) s))"
    by auto
  have "f (if a = u then w else a) \<notin> set (map f (map (\<lambda>row. if row = u then w else row) s))"
  proof
    assume "f (if a = u then w else a) \<in> set (map f (map (\<lambda>row. if row = u then w else row) s))"
    then obtain x where x: "x \<in> set s" "f (if a = u then w else a) = f (if x = u then w else x)"
      by auto
    from Cons.prems(1) x(1) have ax: "f a \<noteq> f x" "a \<noteq> x" by auto
    show False
    proof (cases "a = u")
      case True
      with ax have "x \<noteq> u" by simp
      with True x(2) have "f w = f x" by simp
      with Cons.prems(2) True ax x(1) show False by auto
    next
      case False
      show False
      proof (cases "x = u")
        case True
        with False x(2) have "f a = f w" by simp
        with Cons.prems(2) True ax show False by auto
      next
        case False
        with \<open>a \<noteq> u\<close> x(2) ax show False by simp
      qed
    qed
  qed
  with IH show ?case by (simp only: list.map distinct.simps simp_thms)
qed

lemma replaced_twice:
  assumes "distinct (map id' s)" "u \<in> set s" "id' w1 = id' u"
  shows "map (\<lambda>row. if row = w1 then w2 else row) (map (\<lambda>row. if row = u then w1 else row) s) =
         map (\<lambda>row. if row = u then w2 else row) s"
proof -
  have "(if (if row = u then w1 else row) = w1 then w2 else (if row = u then w1 else row)) =
        (if row = u then w2 else row)" if "row \<in> set s" for row
  proof (cases "row = u")
    case True
    then show ?thesis by simp
  next
    case False
    with same_id_stored [OF assms(1,2) that] assms(3) have "row \<noteq> w1" by auto
    with False show ?thesis by simp
  qed
  then show ?thesis by (simp add: comp_def)
qed

lemma update_stored:
  assumes "distinct (map id' s)" "u \<in> set s"
    and e: "update_email lower s u p = Inr u1" and ph: "fst (update_phone now s u1 p) = Inr u2"
    and w: "w = (if update_other_fields u2 p = u then u
                 else (update_other_fields u2 p)\<lparr>updated_at := now\<rparr>)"
  shows "UserService_update lower now s (id' u) p = (Inr w, map (\<lambda>row. if row = u then w else row) s)"
proof -
  let ?x = "update_other_fields u2 p"
  let ?s1 = "snd (update_phone now s u1 p)"
  have ids: "id' u1 = id' u" "id' ?x = id' u"
    using update_email_keeps(1) [OF e] update_phone_keeps(1) [OF ph]
    by (simp_all add: update_other_fields_keeps)
  have last: "UserRepository_update now ?s1 ?x = (w, map (\<lambda>row. if row = u then w else row) s)"
    using update_phone_Inr(4) [OF ph]
  proof
    assume "u2 = u1 \<and> ?s1 = s"
    with assms(1,2) ids w show ?thesis
      by (simp add: repository_update_stored)
  next
    assume queried: "User.phone u2 \<noteq> User.phone u1 \<and> ?s1 = flush now s u1"
    define w1 where "w1 = (if u1 = u then u else u1\<lparr>updated_at := now\<rparr>)"
    have w1: "id' w1 = id' u" "User.phone w1 = User.phone u"
      using ids(1) update_email_keeps(2) [OF e] by (auto simp: w1_def)
    from queried flush_stored [OF assms(1,2) ids(1) w1_def]
    have s1: "?s1 = map (\<lambda>row. if row = u then w1 else row) s" by simp
    from queried update_email_keeps(2) [OF e]
    have differs: "User.phone ?x \<noteq> User.phone u" "User.phone ?x \<noteq> User.phone w1"
      by (simp_all add: update_other_fields_keeps w1(2))
    then have "?x \<noteq> u" "?x \<noteq> w1" by auto
    with w have w': "w = (if ?x = w1 then w1 else ?x\<lparr>updated_at := now\<rparr>)" by simp
    have "distinct (map id' ?s1)" "w1 \<in> set ?s1"
      using assms(1,2) w1(1) unfolding s1
      by (simp_all only: replaced_member) (intro replaced_distinct, simp_all)
    moreover have "id' ?x = id' w1" using ids(2) w1(1) by simp
    ultimately have "UserRepository_update now ?s1 ?x =
        (w, map (\<lambda>row. if row = w1 then w else row) ?s1)"
      using w' by (rule repository_update_stored)
    with replaced_twice [OF assms(1,2) w1(1)] show ?thesis
      unfolding s1 by simp
  qed
  with assms(1,2) e ph show ?thesis
    by (simp add: UserService_update_def service_get_by_id_stored split_def)
qed

lemma update_result:
  assumes "distinct (map id' s)" "u \<in> set s"
    and "UserService_update lower now s (id' u) p = (r, s')"
  shows "(\<exists>e. r = Inl e \<and> s' = s \<and> update_email lower s u p = Inl e)
         \<or> (\<exists>e u1. r = Inl e \<and> update_email lower s u p = Inr u1
              \<and> fst (update_phone now s u1 p) = Inl e
              \<and> s' = map (\<lambda>row. if row = u then (if u1 = u then u else u1\<lparr>updated_at := now\<rparr>)
                                  else row) s)
         \<or> (\<exists>u1 u2 w. update_email lower s u p = Inr u1 \<and> fst (update_phone now s u1 p) = Inr u2
              \<and> w = (if update_other_fields u2 p = u then u
                      else (update_other_fields u2 p)\<lparr>updated_at := now\<rparr>)
              \<and> r = Inr w \<and> s' = map (\<lambda>row. if row = u then w else row) s)"
proof (cases "update_email lower s u p")
  case (Inl e)
  with assms(1,2) have "UserService_update lower now s (id' u) p = (Inl e, s)"
    by (simp add: UserService_update_def service_get_by_id_stored)
  with assms(3) have "r = Inl e" "s' = s" by simp_all
  with Inl show ?thesis by blast
next
  case (Inr u1)
  note e = this
  show ?thesis
  proof (cases "fst (update_phone now s u1 p)")
    case (Inl e')
    from update_email_keeps(1) [OF e] have "id' u1 = id' u" .
    from flush_stored [OF assms(1,2) this refl, of now] update_phone_Inl(2) [OF Inl]
    have s1: "snd (update_phone now s u1 p) =
        map (\<lambda>row. if row = u then (if u1 = u then u else u1\<lparr>updated_at := now\<rparr>) else row) s"
      by simp
    from e Inl assms(1,2) have "UserService_update lower now s (id' u) p =
        (Inl e', snd (update_phone now s u1 p))"
      by (simp add: UserService_update_def service_get_by_id_stored split_def)
    with assms(3) s1 have "r = Inl e'"
      "s' = map (\<lambda>row. if row = u then (if u1 = u then u else u1\<lparr>updated_at := now\<rparr>) else row) s"
      by simp_all
    with e Inl show ?thesis by blast
  next
    case (Inr u2)
    define w where "w = (if update_other_fields u2 p = u then u
                         else (update_other_fields u2 p)\<lparr>updated_at := now\<rparr>)"
    from update_stored [OF assms(1,2) e Inr w_def] assms(3)
    have "r = Inr w" "s' = map (\<lambda>row. if row = u then w else row) s" by simp_all
    with e Inr w_def show ?thesis by blast
  qed
qed

lemma replaced_row:
  assumes "distinct (map id' s)" "u \<in> set s"
    and "row \<in> set (map (\<lambda>row. if row = u then w else row) s)" "id' row = id' u"
  shows "row = w"
proof -
  from assms(3) obtain x where x: "x \<in> set s" "row = (if x = u then w else x)" by auto
  show ?thesis
  proof (cases "x = u")
    case True
    with x show ?thesis by simp
  next
    case False
    with x assms(4) have "id' x = id' u" by simp
    with same_id_stored [OF assms(1,2) x(1)] False show ?thesis by simp
  qed
qed

lemma replaced_same: "map (\<lambda>row. if row = u then u else row) s = s"
  by (induction s) auto

lemma update_frame:
  assumes "update_email lower s u p = Inr u1" "fst (update_phone now s u1 p) = Inr u2"
    and "w = (if update_other_fields u2 p = u then u
              else (update_other_fields u2 p)\<lparr>updated_at := now\<rparr>)"
  shows "id' w = id' u" "password_hash w = password_hash u" "is_verified w = is_verified u"
    "is_two_factor_enabled w = is_two_factor_enabled u" "created_at w = created_at u"
    "User.email w = User.email u1" "User.phone w = User.phone u2"
    "User.first_name w = User.first_name (update_other_fields u p)"
    "User.last_name w = User.last_name (update_other_fields u p)"
    "User.role w = User.role (update_other_fields u p)"
    "User.is_active w = User.is_active (update_other_fields u p)"
proof -
  let ?x = "update_other_fields u2 p"
  have u1: "u1 = u\<lparr>User.email := User.email u1\<rparr>"
    by (rule update_email_Inr(1) [OF assms(1)])
  have u2: "u2 = u1\<lparr>User.phone := User.phone u2\<rparr>"
    by (rule update_phone_Inr(1) [OF assms(2)])
  have x: "?x = u\<lparr>User.email := User.email u1, User.phone := User.phone u2,
                   User.first_name := User.first_name (update_other_fields u p),
                   User.last_name := User.last_name (update_other_fields u p),
                   User.role := User.role (update_other_fields u p),
                   User.is_active := User.is_active (update_other_fields u p)\<rparr>"
    by (subst u2, subst u1) (simp add: update_other_fields_def split: option.splits)
  have w: "w = ?x \<or> w = ?x\<lparr>updated_at := now\<rparr>"
    using assms(3) by (cases "?x = u") simp_all
  have fx: "id' ?x = id' u" "password_hash ?x = password_hash u" "is_verified ?x = is_verified u"
    "is_two_factor_enabled ?x = is_two_factor_enabled u" "created_at ?x = created_at u"
    "User.email ?x = User.email u1" "User.phone ?x = User.phone u2"
    "User.first_name ?x = User.first_name (update_other_fields u p)"
    "User.last_name ?x = User.last_name (update_other_fields u p)"
    "User.role ?x = User.role (update_other_fields u p)"
    "User.is_active ?x = User.is_active (update_other_fields u p)"
    by (subst x, simp)+
  from w fx show "id' w = id' u" "password_hash w = password_hash u" "is_verified w = is_verified u"
    "is_two_factor_enabled w = is_two_factor_enabled u" "created_at w = created_at u"
    "User.email w = User.email u1" "User.phone w = User.phone u2"
    "User.first_name w = User.first_name (update_other_fields u p)"
    "User.last_name w = User.last_name (update_other_fields u p)"
    "User.role w = User.role (update_other_fields u p)"
    "User.is_active w = User.is_active (update_other_fields u p)"
    by auto
qed

lemma update_Inr:
  assumes "distinct (map id' s)" "u \<in> set s"
    and "UserService_update lower now s (id' u) p = (Inr u', s')"
  obtains u1 u2 where "update_email lower s u p = Inr u1" "fst (update_phone now s u1 p) = Inr u2"
    "u' = (if update_other_fields u2 p = u then u
           else (update_other_fields u2 p)\<lparr>updated_at := now\<rparr>)"
    "s' = map (\<lambda>row. if row = u then u' else row) s"
  using update_result [OF assms] by auto

lemma rename_alice:
  "UserService_update ascii_lower 50 [alice, bob] ''u1'' rename =
     (Inr (alice\<lparr>User.first_name := ''Alicia'', updated_at := 50\<rparr>),
      [alice\<lparr>User.first_name := ''Alicia'', updated_at := 50\<rparr>, bob])"
  by (simp add: UserService_update_def UserService_get_by_id_def UserRepository_get_by_id_def
        update_email_def update_phone_def update_other_fields_def UserRepository_update_def
        flush_def refresh_def rename_def UserUpdate_default_def alice_def bob_def)

lemma update_email_own:
  "UserUpdate.email p = Some e \<Longrightarrow> lower e = User.email user \<Longrightarrow> update_email lower s user p = Inr user"
  by (simp add: update_email_def)

lemma update_email_absent:
  "update_email lower s user (p\<lparr>UserUpdate.email := None\<rparr>) = Inr user"
  by (simp add: update_email_def)

lemma update_drop_email:
  assumes "\<And>user. UserService_get_by_id s k = Inr user \<Longrightarrow> update_email lower s user p = Inr user"
  shows "UserService_update lower now s k p = UserService_update lower now s k (p\<lparr>UserUpdate.email := None\<rparr>)"
proof (cases "UserService_get_by_id s k")
  case (Inl e)
  then show ?thesis by (simp add: UserService_update_def)
next
  case (Inr v)
  have ph: "update_phone now s v (p\<lparr>UserUpdate.email := None\<rparr>) = update_phone now s v p"
    by (simp add: update_phone_def)
  have ot: "update_other_fields w (p\<lparr>UserUpdate.email := None\<rparr>) = update_other_fields w p" for w
    by (simp add: update_other_fields_def)
  show ?thesis
    by (simp add: UserService_update_def update_email_absent Inr assms [OF Inr] ph ot split_def
          cong: sum.case_cong)
qed

lemma update_drop_phone:
  assumes "\<And>user. update_phone now s user p = (Inr user, s)"
  shows "UserService_update lower now s k p = UserService_update lower now s k (p\<lparr>UserUpdate.phone := None\<rparr>)"
proof (cases "UserService_get_by_id s k")
  case (Inl e)
  then show ?thesis by (simp add: UserService_update_def)
next
  case (Inr v)
  have em: "update_email lower s v (p\<lparr>UserUpdate.phone := None\<rparr>) = update_email lower s v p"
    by (simp add: update_email_def)
  have ph: "update_phone now s w (p\<lparr>UserUpdate.phone := None\<rparr>) = (Inr w, s)" for w
    by (simp add: update_phone_def)
  have ot: "update_other_fields w (p\<lparr>UserUpdate.phone := None\<rparr>) = update_other_fields w p" for w
    by (simp add: update_other_fields_def)
  show ?thesis
    by (simp add: UserService_update_def Inr assms em ph ot cong: sum.case_cong)
qed

lemma update_email_falsy:
  "UserUpdate.email p = None \<or> UserUpdate.email p = Some [] \<Longrightarrow> update_email lower s user p = Inr user"
  by (auto simp: update_email_def)

lemma update_phone_falsy:
  "UserUpdate.phone p = None \<or> UserUpdate.phone p = Some [] \<Longrightarrow>
   update_phone now s user p = (Inr user, s)"
  by (auto simp: update_phone_def)

lemma update_email_Inl:
  "update_email lower s user p = Inl e \<Longrightarrow>
   \<exists>x. e = UserAlreadyExistsError (''User with email '' @ x @ '' already exists'')"
  by (auto simp: update_email_def split: option.splits if_splits)

lemma update_rows:
  assumes "distinct (map id' s)" "u \<in> set s"
    and "UserService_update lower now s (id' u) p = (r, s')"
    and "row \<in> set s'" "id' row = id' u"
  shows "(\<exists>e. r = Inl e
            \<and> (row = u
                \<or> (\<exists>u1. update_email lower s u p = Inr u1 \<and> row = u1\<lparr>updated_at := now\<rparr>)))
         \<or> r = Inr row"
proof -
  from update_result [OF assms(1-3)]
  have "(\<exists>e. r = Inl e \<and> s' = s)
        \<or> (\<exists>e u1. r = Inl e \<and> update_email lower s u p = Inr u1
              \<and> s' = map (\<lambda>row. if row = u then (if u1 = u then u else u1\<lparr>updated_at := now\<rparr>)
                                  else row) s)
        \<or> (\<exists>w. r = Inr w \<and> s' = map (\<lambda>row. if row = u then w else row) s)"
    by blast
  then show ?thesis
  proof (elim disjE)
    assume "\<exists>e. r = Inl e \<and> s' = s"
    with assms(4,5) same_id_stored [OF assms(1,2)] show ?thesis by auto
  next
    assume "\<exists>e u1. r = Inl e \<and> update_email lower s u p = Inr u1
              \<and> s' = map (\<lambda>row. if row = u then (if u1 = u then u else u1\<lparr>updated_at := now\<rparr>)
                                  else row) s"
    then obtain e u1 where r: "r = Inl e" and e: "update_email lower s u p = Inr u1"
      and s': "s' = map (\<lambda>row. if row = u then (if u1 = u then u else u1\<lparr>updated_at := now\<rparr>)
                                  else row) s"
      by blast
    from replaced_row [OF assms(1,2), of row "if u1 = u then u else u1\<lparr>updated_at := now\<rparr>"]
      assms(4,5) s'
    have "row = (if u1 = u then u else u1\<lparr>updated_at := now\<rparr>)" by simp
    with r e show ?thesis by (cases "u1 = u") auto
  next
    assume "\<exists>w. r = Inr w \<and> s' = map (\<lambda>row. if row = u then w else row) s"
    then obtain w where "r = Inr w" "s' = map (\<lambda>row. if row = u then w else row) s"
      by blast
    with replaced_row [OF assms(1,2), of row w] assms(4,5) show ?thesis by simp
  qed
qed

lemma update_row_fields:
  assumes "distinct (map id' s)" "u \<in> set s"
    and "UserService_update lower now s (id' u) p = (r, s')"
    and "row \<in> set s'" "id' row = id' u"
  shows "User.email row = User.email u
         \<or> (\<exists>u1. update_email lower s u p = Inr u1 \<and> User.email row = User.email u1)"
    and "User.phone row = User.phone u
         \<or> (\<exists>u1 u2. update_email lower s u p = Inr u1 \<and> fst (update_phone now s u1 p) = Inr u2
               \<and> User.phone row = User.phone u2)"
proof -
  from update_rows [OF assms]
  consider "row = u"
    | u1 where "update_email lower s u p = Inr u1" "row = u1\<lparr>updated_at := now\<rparr>"
    | "r = Inr row"
    by blast
  then have "(User.email row = User.email u
         \<or> (\<exists>u1. update_email lower s u p = Inr u1 \<and> User.email row = User.email u1))
       \<and> (User.phone row = User.phone u
         \<or> (\<exists>u1 u2. update_email lower s u p = Inr u1 \<and> fst (update_phone now s u1 p) = Inr u2
               \<and> User.phone row = User.phone u2))"
  proof cases
    case 1
    then show ?thesis by simp
  next
    case 2
    from update_email_keeps(2) [OF 2(1)] 2 show ?thesis by auto
  next
    case 3
    with assms(3) have "UserService_update lower now s (id' u) p = (Inr row, s')" by simp
    from update_Inr [OF assms(1,2) this] obtain u1 u2
      where e: "update_email lower s u p = Inr u1" and ph: "fst (update_phone now s u1 p) = Inr u2"
        and w: "row = (if update_other_fields u2 p = u then u
                       else (update_other_fields u2 p)\<lparr>updated_at := now\<rparr>)"
      by blast
    from update_frame(6,7) [OF e ph w] e ph show ?thesis by blast
  qed
  then show "User.email row = User.email u
         \<or> (\<exists>u1. update_email lower s u p = Inr u1 \<and> User.email row = User.email u1)"
    and "User.phone row = User.phone u
         \<or> (\<exists>u1 u2. update_email lower s u p = Inr u1 \<and> fst (update_phone now s u1 p) = Inr u2
               \<and> User.phone row = User.phone u2)"
    by blast+
qed

lemma update_Inl:
  assumes "distinct (map id' s)" "u \<in> set s"
    and "UserService_update lower now s (id' u) p = (Inl e, s')"
  shows "update_email lower s u p = Inl e
         \<or> (\<exists>u1. update_email lower s u p = Inr u1 \<and> fst (update_phone now s u1 p) = Inl e)"
  using update_result [OF assms] by auto

lemma update_phone_taken_example:
  "UserService_update ascii_lower 50 [alice, bob, carol] ''u1''
     (UserUpdate_default\<lparr>UserUpdate.email := Some ''Al@Example.com'',
                         UserUpdate.phone := Some ''555-0300''\<rparr>) =
     (Inl (UserAlreadyExistsError ''User with phone 555-0300 already exists''),
      [alice\<lparr>User.email := ''al@example.com'', updated_at := 50\<rparr>, bob, carol])"
proof -
  have "ascii_lower ''Al@Example.com'' = ''al@example.com''"
    by (simp add: ascii_lower_def ascii_lower_char_def)
  then show ?thesis
    by (simp add: UserService_update_def UserService_get_by_id_def UserRepository_get_by_id_def
          update_email_def update_phone_def flush_def exists_by_email_iff exists_by_phone_iff
          UserUpdate_default_def alice_def bob_def carol_def Let_def)
qed

text \<open>
  C9: for a stored user, in a table with one row per identifier, \<open>update\<close> with the
  empty patch succeeds, returns the user as stored and leaves the table as it was. For any
  patch, when \<open>update\<close> succeeds the table changes only in the user's row, which becomes
  the returned row, and every field that is absent from the patch keeps its value; the
  identifier, the password hash, the verification flags and the creation time are kept by
  every patch.
\<close>

theorem update_partial:
  assumes "distinct (map id' s)" and "u \<in> set s"
  shows "UserService_update lower now s (id' u) UserUpdate_default = (Inr u, s)
     \<and> (UserService_update lower now s (id' u) p = (Inr u', s') \<longrightarrow>
           s' = map (\<lambda>row. if row = u then u' else row) s
         \<and> (UserUpdate.email p = None \<longrightarrow> User.email u' = User.email u)
         \<and> (UserUpdate.first_name p = None \<longrightarrow> User.first_name u' = User.first_name u)
         \<and> (UserUpdate.last_name p = None \<longrightarrow> User.last_name u' = User.last_name u)
         \<and> (UserUpdate.phone p = None \<longrightarrow> User.phone u' = User.phone u)
         \<and> (UserUpdate.role p = None \<longrightarrow> User.role u' = User.role u)
         \<and> (UserUpdate.is_active p = None \<longrightarrow> User.is_active u' = User.is_active u)
         \<and> id' u' = id' u \<and> password_hash u' = password_hash u
         \<and> is_verified u' = is_verified u
         \<and> is_two_factor_enabled u' = is_two_factor_enabled u
         \<and> created_at u' = created_at u)"
proof
  have "update_email lower s u UserUpdate_default = Inr u"
    and "fst (update_phone now s u UserUpdate_default) = Inr u"
    and "update_other_fields u UserUpdate_default = u"
    by (simp_all add: update_email_def update_phone_def update_other_fields_def
          UserUpdate_default_def)
  from update_stored [OF assms this(1,2), where w = u] this(3)
  show "UserService_update lower now s (id' u) UserUpdate_default = (Inr u, s)"
    by (simp add: replaced_same)
next
  show "UserService_update lower now s (id' u) p = (Inr u', s') \<longrightarrow>
           s' = map (\<lambda>row. if row = u then u' else row) s
         \<and> (UserUpdate.email p = None \<longrightarrow> User.email u' = User.email u)
         \<and> (UserUpdate.first_name p = None \<longrightarrow> User.first_name u' = User.first_name u)
         \<and> (UserUpdate.last_name p = None \<longrightarrow> User.last_name u' = User.last_name u)
         \<and> (UserUpdate.phone p = None \<longrightarrow> User.phone u' = User.phone u)
         \<and> (UserUpdate.role p = None \<longrightarrow> User.role u' = User.role u)
         \<and> (UserUpdate.is_active p = None \<longrightarrow> User.is_active u' = User.is_active u)
         \<and> id' u' = id' u \<and> password_hash u' = password_hash u
         \<and> is_verified u' = is_verified u
         \<and> is_two_factor_enabled u' = is_two_factor_enabled u
         \<and> created_at u' = created_at u"
  proof
    assume "UserService_update lower now s (id' u) p = (Inr u', s')"
    from update_Inr [OF assms this] obtain u1 u2
      where e: "update_email lower s u p = Inr u1" and ph: "fst (update_phone now s u1 p) = Inr u2"
        and u': "u' = (if update_other_fields u2 p = u then u
                       else (update_other_fields u2 p)\<lparr>updated_at := now\<rparr>)"
        and s': "s' = map (\<lambda>row. if row = u then u' else row) s"
      by blast
    note fr = update_frame [OF e ph u']
    have "UserUpdate.email p = None \<longrightarrow> User.email u' = User.email u"
      using update_email_Inr(2) [OF e] fr(6) by auto
    moreover have "UserUpdate.phone p = None \<longrightarrow> User.phone u' = User.phone u"
      using update_phone_Inr(2) [OF ph] update_email_Inr(1) [OF e] fr(7)
      by (metis User.select_convs(5) User.surjective User.update_convs(2))
    moreover have "UserUpdate.first_name p = None \<longrightarrow> User.first_name u' = User.first_name u"
      "UserUpdate.last_name p = None \<longrightarrow> User.last_name u' = User.last_name u"
      "UserUpdate.role p = None \<longrightarrow> User.role u' = User.role u"
      "UserUpdate.is_active p = None \<longrightarrow> User.is_active u' = User.is_active u"
      using fr(8-11) by (simp_all add: update_other_fields_absent)
    ultimately show "s' = map (\<lambda>row. if row = u then u' else row) s
         \<and> (UserUpdate.email p = None \<longrightarrow> User.email u' = User.email u)
         \<and> (UserUpdate.first_name p = None \<longrightarrow> User.first_name u' = User.first_name u)
         \<and> (UserUpdate.last_name p = None \<longrightarrow> User.last_name u' = User.last_name u)
         \<and> (UserUpdate.phone p = None \<longrightarrow> User.phone u' = User.phone u)
         \<and> (UserUpdate.role p = None \<longrightarrow> User.role u' = User.role u)
         \<and> (UserUpdate.is_active p = None \<longrightarrow> User.is_active u' = User.is_active u)
         \<and> id' u' = id' u \<and> password_hash u' = password_hash u
         \<and> is_verified u' = is_verified u
         \<and> is_two_factor_enabled u' = is_two_factor_enabled u
         \<and> created_at u' = created_at u"
      using s' fr(1-5) by blast
  qed
qed

theorem update_partial_witness:
  "UserService_update ascii_lower 50 [alice, bob] ''u1'' UserUpdate_default = (Inr alice, [alice, bob])
   \<and> (\<exists>u'. UserService_update ascii_lower 50 [alice, bob] ''u1'' rename = (Inr u', [u', bob])
         \<and> User.first_name u' = ''Alicia''
         \<and> User.email u' = ''alice@example.com'' \<and> User.last_name u' = ''Adams''
         \<and> User.phone u' = Some ''555-0100'' \<and> User.role u' = ''teacher'' \<and> User.is_active u'
         \<and> id' u' = ''u1'' \<and> password_hash u' = ''#alice-pw-1'' \<and> created_at u' = 10)"
  using update_partial [where lower = ascii_lower and s = "[alice, bob]" and u = alice and now = 50
          and p = rename
          and u' = "alice\<lparr>User.first_name := ''Alicia'', updated_at := 50\<rparr>"
          and s' = "[alice\<lparr>User.first_name := ''Alicia'', updated_at := 50\<rparr>, bob]"]
    rename_alice
  by (simp add: alice_def bob_def rename_def UserUpdate_default_def)

text \<open>
  C6: for a stored user, in a table with one row per identifier, and a patch with an
  email. When emails are unique in the table and the lowercased, non-empty patch email is
  the stored email of a different user, \<open>update\<close> fails with \<open>UserAlreadyExistsError\<close>
  and leaves the table, hence the user, unchanged. When the patch email equals the user's
  own stored lowercase email up to case, the email is in the table (a uniqueness check
  would find it), yet the patch behaves as the same patch without the email, and the
  patch that has only this email succeeds and changes nothing.
\<close>

theorem update_email_uniqueness:
  assumes "distinct (map id' s)" and "u \<in> set s" and "UserUpdate.email p = Some e"
  shows "(distinct (map User.email s) \<and> v \<in> set s \<and> v \<noteq> u \<and> e \<noteq> [] \<and> lower e = User.email v \<longrightarrow>
            UserService_update lower now s (id' u) p =
              (Inl (UserAlreadyExistsError (''User with email '' @ e @ '' already exists'')), s))
       \<and> (lower e = lower (User.email u) \<and> lower (User.email u) = User.email u \<longrightarrow>
            UserRepository_exists_by_email lower s e
          \<and> UserService_update lower now s (id' u) p =
              UserService_update lower now s (id' u) (p\<lparr>UserUpdate.email := None\<rparr>)
          \<and> UserService_update lower now s (id' u) (UserUpdate_default\<lparr>UserUpdate.email := Some e\<rparr>) =
              (Inr u, s))"
proof (intro conjI impI)
  assume h: "distinct (map User.email s) \<and> v \<in> set s \<and> v \<noteq> u \<and> e \<noteq> [] \<and> lower e = User.email v"
  then have "User.email v \<noteq> User.email u"
    using assms(2) by (metis distinct_map inj_onD)
  with h have "lower e \<noteq> User.email u" by simp
  moreover from h have "UserRepository_exists_by_email lower s e"
    by (auto simp: exists_by_email_iff)
  ultimately have "update_email lower s u p =
      Inl (UserAlreadyExistsError (''User with email '' @ e @ '' already exists''))"
    using assms(3) h by (simp add: update_email_def)
  with assms(1,2) show "UserService_update lower now s (id' u) p =
      (Inl (UserAlreadyExistsError (''User with email '' @ e @ '' already exists'')), s)"
    by (simp add: UserService_update_def service_get_by_id_stored)
next
  assume h: "lower e = lower (User.email u) \<and> lower (User.email u) = User.email u"
  with assms(2) show "UserRepository_exists_by_email lower s e"
    by (auto simp: exists_by_email_iff)
next
  assume h: "lower e = lower (User.email u) \<and> lower (User.email u) = User.email u"
  then have own: "update_email lower s u p = Inr u"
    using assms(3) by (simp add: update_email_own)
  show "UserService_update lower now s (id' u) p =
          UserService_update lower now s (id' u) (p\<lparr>UserUpdate.email := None\<rparr>)"
  proof (rule update_drop_email)
    fix user assume "UserService_get_by_id s (id' u) = Inr user"
    with assms(1,2) have "user = u" by (simp add: service_get_by_id_stored)
    with own show "update_email lower s user p = Inr user" by simp
  qed
next
  assume h: "lower e = lower (User.email u) \<and> lower (User.email u) = User.email u"
  let ?p = "UserUpdate_default\<lparr>UserUpdate.email := Some e\<rparr>"
  from h have "update_email lower s u ?p = Inr u"
    by (simp add: update_email_def)
  moreover have "fst (update_phone now s u ?p) = Inr u" "update_other_fields u ?p = u"
    by (simp_all add: update_phone_def update_other_fields_def UserUpdate_default_def)
  ultimately show "UserService_update lower now s (id' u) ?p = (Inr u, s)"
    using update_stored [OF assms(1,2), where p = ?p and ?u1.0 = u and ?u2.0 = u and w = u
            and now = now and lower = lower]
    by (simp add: replaced_same)
qed

theorem update_email_uniqueness_witness:
  "UserService_update ascii_lower 50 [alice, bob] ''u1'' (change_email ''Bob@Example.com'') =
     (Inl (UserAlreadyExistsError ''User with email Bob@Example.com already exists''), [alice, bob])
   \<and> UserRepository_exists_by_email ascii_lower [alice, bob] ''Alice@Example.com''
   \<and> UserService_update ascii_lower 50 [alice, bob] ''u1'' (change_email ''Alice@Example.com'') =
     (Inr alice, [alice, bob])"
proof -
  have low: "ascii_lower ''Bob@Example.com'' = ''bob@example.com''"
    by (simp add: ascii_lower_def ascii_lower_char_def)
  have stored: "distinct (map id' [alice, bob])" "alice \<in> set [alice, bob]"
    "distinct (map User.email [alice, bob])" "bob \<in> set [alice, bob]" "bob \<noteq> alice"
    "id' alice = ''u1''"
    by (simp_all add: alice_def bob_def)
  have taken: "ascii_lower ''Bob@Example.com'' = User.email bob"
    and own: "ascii_lower ''Alice@Example.com'' = ascii_lower (User.email alice)"
      "ascii_lower (User.email alice) = User.email alice"
    by (simp_all add: alice_def bob_def low lower_examples)
  have "UserService_update ascii_lower 50 [alice, bob] (id' alice) (change_email ''Bob@Example.com'') =
     (Inl (UserAlreadyExistsError (''User with email '' @ ''Bob@Example.com'' @ '' already exists'')),
      [alice, bob])"
    using update_email_uniqueness
            [where lower = ascii_lower and s = "[alice, bob]" and u = alice
               and p = "change_email ''Bob@Example.com''" and e = "''Bob@Example.com''"
               and v = bob and now = 50]
      stored taken
    by (simp add: change_email_def UserUpdate_default_def)
  moreover have "UserRepository_exists_by_email ascii_lower [alice, bob] ''Alice@Example.com''
     \<and> UserService_update ascii_lower 50 [alice, bob] (id' alice) (change_email ''Alice@Example.com'') =
         (Inr alice, [alice, bob])"
  proof -
    have pe: "UserUpdate.email (change_email ''Alice@Example.com'') = Some ''Alice@Example.com''"
      by (simp add: change_email_def)
    from update_email_uniqueness [OF stored(1,2) pe, where v = bob and now = 50
           and lower = ascii_lower] own
    have c: "UserRepository_exists_by_email ascii_lower [alice, bob] ''Alice@Example.com''
        \<and> UserService_update ascii_lower 50 [alice, bob] (id' alice) (change_email ''Alice@Example.com'') =
            UserService_update ascii_lower 50 [alice, bob] (id' alice)
              ((change_email ''Alice@Example.com'')\<lparr>UserUpdate.email := None\<rparr>)
        \<and> UserService_update ascii_lower 50 [alice, bob] (id' alice)
              (UserUpdate_default\<lparr>UserUpdate.email := Some ''Alice@Example.com''\<rparr>) =
            (Inr alice, [alice, bob])"
      by blast
    from c [THEN conjunct1] c [THEN conjunct2, THEN conjunct2] show ?thesis
      by (simp add: change_email_def)
  qed
  ultimately show ?thesis
    by (simp add: stored(6))
qed

text \<open>
  C10: \<open>update\<close> tests the email and the phone of the patch for truthiness. For a stored
  user, in a table with one row per identifier, whatever \<open>update\<close> returns: when the
  patch email is \<open>None\<close> or the empty string, the user's row keeps its email, the
  result is not the email \<open>UserAlreadyExistsError\<close>, and the patch behaves as the same
  patch without the email, whatever the table holds; the same for the phone. A user's
  phone that is set is still set after every \<open>update\<close>: no patch clears it.
\<close>

theorem update_falsy_email_or_phone:
  assumes "distinct (map id' s)" and "u \<in> set s"
    and "UserService_update lower now s (id' u) p = (r, s')"
  shows "(UserUpdate.email p = None \<or> UserUpdate.email p = Some [] \<longrightarrow>
            (\<forall>row\<in>set s'. id' row = id' u \<longrightarrow> User.email row = User.email u)
          \<and> (\<forall>u'. r = Inr u' \<longrightarrow> User.email u' = User.email u)
          \<and> (\<forall>m. r \<noteq> Inl (UserAlreadyExistsError (''User with email '' @ m)))
          \<and> UserService_update lower now s (id' u) (p\<lparr>UserUpdate.email := None\<rparr>) = (r, s'))
       \<and> (UserUpdate.phone p = None \<or> UserUpdate.phone p = Some [] \<longrightarrow>
            (\<forall>row\<in>set s'. id' row = id' u \<longrightarrow> User.phone row = User.phone u)
          \<and> (\<forall>u'. r = Inr u' \<longrightarrow> User.phone u' = User.phone u)
          \<and> (\<forall>m. r \<noteq> Inl (UserAlreadyExistsError (''User with phone '' @ m)))
          \<and> UserService_update lower now s (id' u) (p\<lparr>UserUpdate.phone := None\<rparr>) = (r, s'))
       \<and> (User.phone u \<noteq> None \<longrightarrow>
            (\<forall>row\<in>set s'. id' row = id' u \<longrightarrow> User.phone row \<noteq> None)
          \<and> (\<forall>u'. r = Inr u' \<longrightarrow> User.phone u' \<noteq> None))"
proof -
  have returned: "u' \<in> set s' \<and> id' u' = id' u" if r: "r = Inr u'" for u'
  proof -
    from assms(3) r have "UserService_update lower now s (id' u) p = (Inr u', s')" by simp
    from update_Inr [OF assms(1,2) this] obtain u1 u2
      where e: "update_email lower s u p = Inr u1" and ph: "fst (update_phone now s u1 p) = Inr u2"
        and w: "u' = (if update_other_fields u2 p = u then u
                      else (update_other_fields u2 p)\<lparr>updated_at := now\<rparr>)"
        and s': "s' = map (\<lambda>row. if row = u then u' else row) s"
      by blast
    from s' assms(2) have "u' \<in> set s'" by (simp only: replaced_member)
    with update_frame(1) [OF e ph w] show ?thesis by simp
  qed
  have email_row: "User.email row = User.email u"
    if f: "UserUpdate.email p = None \<or> UserUpdate.email p = Some []"
      and row: "row \<in> set s'" "id' row = id' u" for row
    using update_row_fields(1) [OF assms row] update_email_Inr(2) [OF _ f] by auto
  have phone_same: "User.phone row = User.phone u"
    if f: "UserUpdate.phone p = None \<or> UserUpdate.phone p = Some []"
      and row: "row \<in> set s'" "id' row = id' u" for row
    using update_row_fields(2) [OF assms row]
  proof
    assume "User.phone row = User.phone u"
    then show ?thesis .
  next
    assume "\<exists>u1 u2. update_email lower s u p = Inr u1 \<and> fst (update_phone now s u1 p) = Inr u2
               \<and> User.phone row = User.phone u2"
    then obtain u1 u2 where e: "update_email lower s u p = Inr u1"
      and ph: "fst (update_phone now s u1 p) = Inr u2" and "User.phone row = User.phone u2"
      by blast
    with update_email_keeps(2) [OF e] update_phone_Inr(2) [OF ph f] show ?thesis by simp
  qed
  have phone_kept: "User.phone row \<noteq> None"
    if set: "User.phone u \<noteq> None" and row: "row \<in> set s'" "id' row = id' u" for row
    using update_row_fields(2) [OF assms row]
  proof
    assume "User.phone row = User.phone u"
    with set show ?thesis by simp
  next
    assume "\<exists>u1 u2. update_email lower s u p = Inr u1 \<and> fst (update_phone now s u1 p) = Inr u2
               \<and> User.phone row = User.phone u2"
    then obtain u1 u2 where e: "update_email lower s u p = Inr u1"
      and ph: "fst (update_phone now s u1 p) = Inr u2" and "User.phone row = User.phone u2"
      by blast
    with update_email_keeps(2) [OF e] set update_phone_Inr(3) [OF ph] show ?thesis by simp
  qed
  have no_email_error: "r \<noteq> Inl (UserAlreadyExistsError (''User with email '' @ m))"
    if f: "UserUpdate.email p = None \<or> UserUpdate.email p = Some []" for m
  proof
    assume r: "r = Inl (UserAlreadyExistsError (''User with email '' @ m))"
    with assms(3) have "UserService_update lower now s (id' u) p =
        (Inl (UserAlreadyExistsError (''User with email '' @ m)), s')" by simp
    from update_Inl [OF assms(1,2) this] update_email_falsy [OF f, of lower s u]
    obtain u1 where "fst (update_phone now s u1 p) = Inl (UserAlreadyExistsError (''User with email '' @ m))"
      by auto
    from update_phone_Inl(1) [OF this] show False by simp
  qed
  have no_phone_error: "r \<noteq> Inl (UserAlreadyExistsError (''User with phone '' @ m))"
    if f: "UserUpdate.phone p = None \<or> UserUpdate.phone p = Some []" for m
  proof
    assume r: "r = Inl (UserAlreadyExistsError (''User with phone '' @ m))"
    with assms(3) have "UserService_update lower now s (id' u) p =
        (Inl (UserAlreadyExistsError (''User with phone '' @ m)), s')" by simp
    from update_Inl [OF assms(1,2) this] update_phone_falsy [OF f, of now s]
    have "update_email lower s u p = Inl (UserAlreadyExistsError (''User with phone '' @ m))"
      by auto
    from update_email_Inl [OF this] show False by simp
  qed
  have drop_email: "UserService_update lower now s (id' u) (p\<lparr>UserUpdate.email := None\<rparr>) = (r, s')"
    if f: "UserUpdate.email p = None \<or> UserUpdate.email p = Some []"
    using update_drop_email [where s = s and k = "id' u" and p = p and now = now and lower = lower]
      update_email_falsy [OF f, of lower s] assms(3) by simp
  have drop_phone: "UserService_update lower now s (id' u) (p\<lparr>UserUpdate.phone := None\<rparr>) = (r, s')"
    if f: "UserUpdate.phone p = None \<or> UserUpdate.phone p = Some []"
    using update_drop_phone [where s = s and k = "id' u" and p = p and now = now and lower = lower]
      update_phone_falsy [OF f, of now s] assms(3) by simp
  from email_row phone_same phone_kept returned
  have "\<forall>u'. r = Inr u' \<longrightarrow>
          (UserUpdate.email p = None \<or> UserUpdate.email p = Some [] \<longrightarrow> User.email u' = User.email u)
        \<and> (UserUpdate.phone p = None \<or> UserUpdate.phone p = Some [] \<longrightarrow> User.phone u' = User.phone u)
        \<and> (User.phone u \<noteq> None \<longrightarrow> User.phone u' \<noteq> None)"
    by blast
  with email_row no_email_error drop_email phone_same no_phone_error drop_phone phone_kept
  show ?thesis by blast
qed

theorem update_falsy_email_or_phone_witness:
  "UserRepository_exists_by_phone [alice, bob\<lparr>User.phone := Some []\<rparr>] []
   \<and> UserService_update ascii_lower 50 [alice, bob\<lparr>User.phone := Some []\<rparr>] ''u1'' blank_contacts =
       (Inr alice, [alice, bob\<lparr>User.phone := Some []\<rparr>])
   \<and> UserService_update ascii_lower 50 [alice, bob\<lparr>User.phone := Some []\<rparr>] ''u1''
         (blank_contacts\<lparr>UserUpdate.email := None\<rparr>) =
       (Inr alice, [alice, bob\<lparr>User.phone := Some []\<rparr>])
   \<and> UserService_update ascii_lower 50 [alice, bob\<lparr>User.phone := Some []\<rparr>] ''u1''
         (blank_contacts\<lparr>UserUpdate.phone := None\<rparr>) =
       (Inr alice, [alice, bob\<lparr>User.phone := Some []\<rparr>])
   \<and> User.phone alice = Some ''555-0100''"
proof -
  let ?s = "[alice, bob\<lparr>User.phone := Some []\<rparr>]"
  have stored: "distinct (map id' ?s)" "alice \<in> set ?s"
    by (simp_all add: alice_def bob_def)
  have run: "UserService_update ascii_lower 50 ?s (id' alice) blank_contacts = (Inr alice, ?s)"
    by (simp add: UserService_update_def UserService_get_by_id_def UserRepository_get_by_id_def
          update_email_def update_phone_def update_other_fields_def UserRepository_update_def
          flush_def refresh_def blank_contacts_def UserUpdate_default_def alice_def bob_def)
  have falsy: "UserUpdate.email blank_contacts = Some []" "UserUpdate.phone blank_contacts = Some []"
    by (simp_all add: blank_contacts_def)
  from update_falsy_email_or_phone [OF stored run] falsy
  have "UserService_update ascii_lower 50 ?s (id' alice) (blank_contacts\<lparr>UserUpdate.email := None\<rparr>) =
          (Inr alice, ?s)"
    and "UserService_update ascii_lower 50 ?s (id' alice) (blank_contacts\<lparr>UserUpdate.phone := None\<rparr>) =
          (Inr alice, ?s)"
    by blast+
  moreover have "UserRepository_exists_by_phone ?s []"
    by (simp add: exists_by_phone_iff)
  moreover have "id' alice = ''u1''" "User.phone alice = Some ''555-0100''"
    by (simp_all add: alice_def)
  ultimately show ?thesis using run by simp
qed

section \<open>The table invariants are kept\<close>

text \<open>
  The theorems above are about tables with one row per identifier and per email and with
  emails stored in lower case. The service keeps such tables so: \<open>create\<close> appends a
  row whose lowercased email it found unused (the identifier it is given must be new),
  \<open>update\<close> writes an email only after the same check, and \<open>update_password\<close> and
  \<open>delete\<close> write no email. That a written email is in lower case needs lowercasing to
  be idempotent.
\<close>

lemma create_Inl:
  "UserService_create lower hp dflt s d = (Inl e, s') \<Longrightarrow> s' = s"
  by (auto simp: UserService_create_def UserRepository_create_def Let_def
        split: if_splits option.splits)

lemma create_keeps_emails:
  assumes "distinct (map User.email s)" "\<forall>v\<in>set s. lower (User.email v) = User.email v"
    and "UserService_create lower hp dflt s d = (r, s')"
    and idem: "\<forall>x. lower (lower x) = lower x"
  shows "distinct (map User.email s') \<and> (\<forall>v\<in>set s'. lower (User.email v) = User.email v)"
proof (cases r)
  case (Inl e)
  with assms(3) create_Inl have "s' = s" by blast
  with assms(1,2) show ?thesis by simp
next
  case (Inr u)
  with assms(3) create_Inr [where lower = lower and hp = hp and dflt = dflt and s = s and d = d
      and u = u and s' = s']
  have s': "s' = s @ [u]" and u: "User.email u = lower (UserCreate.email d)"
    and new: "\<forall>v\<in>set s. User.email v \<noteq> lower (UserCreate.email d)"
    by simp_all
  from new u have "User.email u \<notin> set (map User.email s)" by auto
  with assms(1,2) s' u idem show ?thesis by simp
qed

lemma create_keeps_ids:
  assumes "distinct (map id' s)" "default_id dflt \<notin> id' ` set s"
    and "UserService_create lower hp dflt s d = (r, s')"
  shows "distinct (map id' s')"
proof (cases r)
  case (Inl e)
  with assms(3) create_Inl have "s' = s" by blast
  with assms(1) show ?thesis by simp
next
  case (Inr u)
  with assms(3) have "s' = s @ [u]" "id' u = default_id dflt"
    by (auto simp: UserService_create_def UserRepository_create_def Let_def User_init_def
          split: if_splits option.splits)
  with assms(1,2) show ?thesis by simp
qed

lemma update_email_fresh:
  assumes "update_email lower s u p = Inr u1" and idem: "\<forall>x. lower (lower x) = lower x"
  shows "User.email u1 = User.email u
         \<or> (User.email u1 \<notin> User.email ` set s \<and> lower (User.email u1) = User.email u1)"
  using assms
  by (auto simp: update_email_def exists_by_email_iff split: option.splits if_splits)

lemma update_table:
  assumes "distinct (map id' s)" "u \<in> set s"
    and "UserService_update lower now s (id' u) p = (r, s')"
  shows "\<exists>x. s' = map (\<lambda>row. if row = u then x else row) s \<and> id' x = id' u
           \<and> (User.email x = User.email u
               \<or> (\<exists>u1. update_email lower s u p = Inr u1 \<and> User.email x = User.email u1))"
  using update_result [OF assms]
proof (elim disjE exE conjE)
  fix e assume "s' = s"
  then have "s' = map (\<lambda>row. if row = u then u else row) s" by (simp add: replaced_same)
  then show ?thesis by blast
next
  fix e u1
  assume e: "update_email lower s u p = Inr u1"
    and s': "s' = map (\<lambda>row. if row = u then (if u1 = u then u else u1\<lparr>updated_at := now\<rparr>)
                                  else row) s"
  let ?x = "if u1 = u then u else u1\<lparr>updated_at := now\<rparr>"
  from update_email_keeps(1) [OF e] have "id' ?x = id' u" "User.email ?x = User.email u1"
    by auto
  with s' e show ?thesis by blast
next
  fix u1 u2 w
  assume e: "update_email lower s u p = Inr u1" and ph: "fst (update_phone now s u1 p) = Inr u2"
    and w: "w = (if update_other_fields u2 p = u then u
                 else (update_other_fields u2 p)\<lparr>updated_at := now\<rparr>)"
    and s': "s' = map (\<lambda>row. if row = u then w else row) s"
  from update_frame(1,6) [OF e ph w] s' e show ?thesis by blast
qed

lemma update_keeps_invariants:
  assumes "distinct (map id' s)" "distinct (map User.email s)"
    and "\<forall>v\<in>set s. lower (User.email v) = User.email v"
    and "u \<in> set s" "UserService_update lower now s (id' u) p = (r, s')"
    and idem: "\<forall>x. lower (lower x) = lower x"
  shows "distinct (map id' s') \<and> distinct (map User.email s')
         \<and> (\<forall>v\<in>set s'. lower (User.email v) = User.email v)"
proof -
  from update_table [OF assms(1,4,5)] obtain x
    where s': "s' = map (\<lambda>row. if row = u then x else row) s" and id: "id' x = id' u"
      and x: "User.email x = User.email u
              \<or> (\<exists>u1. update_email lower s u p = Inr u1 \<and> User.email x = User.email u1)"
    by blast
  have em: "User.email x = User.email u
            \<or> (User.email x \<notin> User.email ` set s \<and> lower (User.email x) = User.email x)"
    using x
  proof
    assume "User.email x = User.email u"
    then show ?thesis by simp
  next
    assume "\<exists>u1. update_email lower s u p = Inr u1 \<and> User.email x = User.email u1"
    then obtain u1 where e: "update_email lower s u p = Inr u1" and "User.email x = User.email u1"
      by blast
    with update_email_fresh [OF e idem] show ?thesis by simp
  qed
  from id assms(1) have ids: "distinct (map id' s')"
    unfolding s' by (intro replaced_distinct) simp_all
  from em assms(2) have emails: "distinct (map User.email s')"
    unfolding s' by (intro replaced_distinct) auto
  from em assms(3,4) have "lower (User.email x) = User.email x" by auto
  with assms(3) have "\<forall>v\<in>set s'. lower (User.email v) = User.email v"
    unfolding s' by auto
  with ids emails show ?thesis by blast
qed

lemma update_password_keeps_invariants:
  assumes "distinct (map id' s)" "distinct (map User.email s)"
    and "\<forall>v\<in>set s. lower (User.email v) = User.email v"
    and "u \<in> set s" "UserService_update_password hp vp now s (id' u) cur new = (r, s')"
  shows "distinct (map id' s') \<and> distinct (map User.email s')
         \<and> (\<forall>v\<in>set s'. lower (User.email v) = User.email v)"
proof (cases "vp cur (password_hash u)")
  case False
  with assms(1,4,5) have "s' = s"
    by (simp add: UserService_update_password_def service_get_by_id_stored)
  with assms(1-3) show ?thesis by simp
next
  case True
  define w where "w = (if u\<lparr>password_hash := hp new\<rparr> = u then u
                       else u\<lparr>password_hash := hp new, updated_at := now\<rparr>)"
  from update_password_stored [where hp = hp and new = new and now = now and vp = vp and cur = cur,
         OF assms(1,4) True w_def] assms(5)
  have s': "s' = map (\<lambda>row. if row = u then w else row) s" by simp
  have w: "id' w = id' u" "User.email w = User.email u"
    by (simp_all add: w_def)
  from w(1) assms(1) have "distinct (map id' s')"
    unfolding s' by (intro replaced_distinct) simp_all
  moreover from w(2) assms(2) have "distinct (map User.email s')"
    unfolding s' by (intro replaced_distinct) simp_all
  moreover from w(2) assms(3,4) have "\<forall>v\<in>set s'. lower (User.email v) = User.email v"
    unfolding s' by auto
  ultimately show ?thesis by blast
qed

lemma delete_keeps_invariants:
  assumes "distinct (map id' s)" "distinct (map User.email s)"
    and "\<forall>v\<in>set s. lower (User.email v) = User.email v"
    and "UserService_delete s k = (r, s')"
  shows "distinct (map id' s') \<and> distinct (map User.email s')
         \<and> (\<forall>v\<in>set s'. lower (User.email v) = User.email v)"
proof (cases "UserService_get_by_id s k")
  case (Inl e)
  with assms show ?thesis by (simp add: UserService_delete_def)
next
  case (Inr user)
  with assms(4) have "s' = filter (\<lambda>row. id' row \<noteq> id' user) s"
    by (simp add: UserService_delete_def UserRepository_delete_def)
  with assms(1-3) show ?thesis by (simp add: distinct_map_filter)
qed

end
